theory Spec2Isabelle
  imports Complex_Main "HOL-Library.Word" "HOL-Library.Signed_Division"
begin

section \<open>go-fetch: a shallow embedding\<close>

text \<open>
  The program is one Go package: \<^verbatim>\<open>main\<close>, the formatters \<^verbatim>\<open>formatUptime\<close> and
  \<^verbatim>\<open>formatBytes\<close>, the package counter \<^verbatim>\<open>getPackageCount\<close>, \<^verbatim>\<open>getCPUInfo\<close>,
  \<^verbatim>\<open>cleanGPUName\<close> and \<^verbatim>\<open>getGPUInfo\<close>. A Go string is a sequence of bytes, so it is
  a \<^typ>\<open>string\<close> here (a list of 8-bit characters). A Go result pair \<^verbatim>\<open>(T, error)\<close>
  is a pair whose second component is an option (\<^term>\<open>None\<close> is the nil error); a
  pointer that may be nil is an option as well. A run-time panic is a value of its own.
  \<^verbatim>\<open>uint64\<close> is \<^typ>\<open>64 word\<close>; \<^verbatim>\<open>int\<close> values stay far inside 64 bits wherever
  the program computes with them and are \<^typ>\<open>int\<close>.
\<close>

subsection \<open>Errors and panics\<close>

datatype error = Errorf string

fun Error :: "error \<Rightarrow> string" where
  "Error (Errorf msg) = msg"

datatype panic = NilDereference | IndexOutOfRange

subsection \<open>The verbs \<^verbatim>\<open>%d\<close>, \<^verbatim>\<open>%s\<close> and \<^verbatim>\<open>%-*s\<close> of \<^verbatim>\<open>fmt\<close>\<close>

definition digit :: "nat \<Rightarrow> char" where
  "digit d = ''0123456789'' ! d"

fun decimal :: "nat \<Rightarrow> string" where
  "decimal n = (if n < 10 then [digit n] else decimal (n div 10) @ [digit (n mod 10)])"

declare decimal.simps [simp del]

definition fmt_d :: "int \<Rightarrow> string" where
  "fmt_d i = (if i < 0 then CHR ''-'' # decimal (nat (- i)) else decimal (nat i))"

text \<open>\<^verbatim>\<open>%s\<close> applied to an \<^verbatim>\<open>error\<close>: its message, and \<^verbatim>\<open>%!s(<nil>)\<close> for the nil error.\<close>

definition fmt_s_error :: "error option \<Rightarrow> string" where
  "fmt_s_error err = (case err of None \<Rightarrow> ''%!s(<nil>)'' | Some e \<Rightarrow> Error e)"

text \<open>
  \<^verbatim>\<open>utf8.RuneCountInString\<close>: the number of runes of a string. A byte below \<open>0x80\<close> is a
  rune; a leading byte with the continuation bytes that the UTF-8 encoding admits after
  it (no overlong form, no surrogate, nothing above \<open>U+10FFFF\<close>) is one rune; every other
  byte counts as one rune of its own.
\<close>

definition tail_ranges :: "nat \<Rightarrow> (nat \<times> nat) list option" where
  "tail_ranges b =
     (if 0xC2 \<le> b \<and> b \<le> 0xDF then Some [(0x80, 0xBF)]
      else if b = 0xE0 then Some [(0xA0, 0xBF), (0x80, 0xBF)]
      else if b = 0xED then Some [(0x80, 0x9F), (0x80, 0xBF)]
      else if 0xE1 \<le> b \<and> b \<le> 0xEF then Some [(0x80, 0xBF), (0x80, 0xBF)]
      else if b = 0xF0 then Some [(0x90, 0xBF), (0x80, 0xBF), (0x80, 0xBF)]
      else if 0xF1 \<le> b \<and> b \<le> 0xF3 then Some [(0x80, 0xBF), (0x80, 0xBF), (0x80, 0xBF)]
      else if b = 0xF4 then Some [(0x80, 0x8F), (0x80, 0xBF), (0x80, 0xBF)]
      else None)"

fun continues :: "(nat \<times> nat) list \<Rightarrow> string \<Rightarrow> bool" where
  "continues [] s = True"
| "continues (r # rs) [] = False"
| "continues (r # rs) (c # cs) = (fst r \<le> of_char c \<and> (of_char c :: nat) \<le> snd r \<and> continues rs cs)"

fun rune_width :: "string \<Rightarrow> nat" where
  "rune_width [] = 0"
| "rune_width (c # cs) =
     (if (of_char c :: nat) < 0x80 then 1
      else (case tail_ranges (of_char c) of
              None \<Rightarrow> 1
            | Some rs \<Rightarrow> if continues rs cs then Suc (length rs) else 1))"

function RuneCountInString :: "string \<Rightarrow> nat" where
  "RuneCountInString s = (if s = [] then 0 else Suc (RuneCountInString (drop (rune_width s) s)))"
  by pat_completeness auto
termination
proof (relation "measure length")
  show "wf (measure length)" by simp
next
  fix s :: string
  assume "s \<noteq> []"
  then obtain c cs where s: "s = c # cs" by (cases s) auto
  have "0 < rune_width (c # cs)" by (simp split: option.splits)
  then show "(drop (rune_width s) s, s) \<in> measure length" using s by simp
qed

declare RuneCountInString.simps [simp del]

text \<open>
  \<^verbatim>\<open>%-*s\<close>: the string, then blanks up to the width, which counts runes (a negative
  width counts as positive).
\<close>

definition fmt_pad :: "int \<Rightarrow> string \<Rightarrow> string" where
  "fmt_pad width s = s @ replicate (nat \<bar>width\<bar> - RuneCountInString s) (CHR '' '')"

subsection \<open>\<^verbatim>\<open>float64\<close>\<close>

text \<open>
  A finite \<^verbatim>\<open>float64\<close> is the rational number it denotes. \<open>float64 x\<close> is the
  double nearest to \<open>x\<close>, ties to the even significand: \<open>x\<close> is scaled by a power of two
  into \<open>[2\<^sup>5\<^sup>2, 2\<^sup>5\<^sup>3)\<close> (or down to the least exponent \<open>-1074\<close>, the subnormal range),
  rounded to an integer there and scaled back. Every float operation of the program is
  the exact operation followed by this rounding. Values of magnitude \<open>2\<^sup>1\<^sup>0\<^sup>2\<^sup>4\<close> and beyond
  (infinities) and NaN are not modelled; the program's own arithmetic never reaches them.
\<close>

definition round_even :: "rat \<Rightarrow> int" where
  "round_even x =
     (let f = \<lfloor>x\<rfloor>; r = x - of_int f
      in if r < 1 / 2 then f else if 1 / 2 < r then f + 1 else if even f then f else f + 1)"

function norm_up :: "rat \<Rightarrow> int \<Rightarrow> rat \<times> int" where
  "norm_up x e = (if 2 ^ 53 \<le> x then norm_up (x / 2) (e + 1) else (x, e))"
  by pat_completeness auto
termination
proof (relation "measure (\<lambda>(x, e). nat \<lfloor>x\<rfloor>)")
  show "wf (measure (\<lambda>(x, e). nat \<lfloor>x\<rfloor>))" by simp
next
  fix x :: rat and e :: int
  assume h: "2 ^ 53 \<le> x"
  have "x / 2 \<le> x - 1" using h by simp
  then have "\<lfloor>x / 2\<rfloor> \<le> \<lfloor>x - 1\<rfloor>" by (rule floor_mono)
  then have "\<lfloor>x / 2\<rfloor> < \<lfloor>x\<rfloor>" by simp
  moreover have "0 < \<lfloor>x\<rfloor>" using h by simp
  ultimately show "((x / 2, e + 1), (x, e)) \<in> measure (\<lambda>(x, e). nat \<lfloor>x\<rfloor>)"
    by simp
qed

declare norm_up.simps [simp del]

fun norm_down :: "nat \<Rightarrow> rat \<Rightarrow> int \<Rightarrow> rat \<times> int" where
  "norm_down 0 x e = (x, e)"
| "norm_down (Suc k) x e = (if x < 2 ^ 52 then norm_down k (2 * x) (e - 1) else (x, e))"

definition normalise :: "rat \<Rightarrow> rat \<times> int" where
  "normalise x = (case norm_up x 0 of (x1, e1) \<Rightarrow> norm_down 1074 x1 e1)"

definition float64 :: "rat \<Rightarrow> rat" where
  "float64 x =
     (if x = 0 then 0
      else (case normalise \<bar>x\<bar> of (m, e) \<Rightarrow> sgn x * of_int (round_even m) * 2 powi e))"

text \<open>The doubles, for the statements below: a 53-bit significand at an exponent from \<open>-1074\<close>.\<close>

definition representable :: "rat \<Rightarrow> bool" where
  "representable x \<longleftrightarrow> (\<exists>m e. \<bar>m\<bar> \<le> 2 ^ 53 \<and> - 1074 \<le> e \<and> x = of_int m * 2 powi e)"

text \<open>\<^verbatim>\<open>int(f)\<close> truncates towards zero.\<close>

definition trunc :: "rat \<Rightarrow> int" where
  "trunc x = (if 0 \<le> x then \<lfloor>x\<rfloor> else \<lceil>x\<rceil>)"

text \<open>
  \<^verbatim>\<open>%.Nf\<close>: the decimal with \<open>N\<close> fraction digits nearest to the double's exact value,
  ties to even, as \<^verbatim>\<open>strconv\<close> rounds.
\<close>

definition fmt_f :: "nat \<Rightarrow> rat \<Rightarrow> string" where
  "fmt_f prec x =
     (let n = nat (round_even (\<bar>x\<bar> * 10 ^ prec));
          frac = decimal (n mod 10 ^ prec)
      in (if x < 0 then ''-'' else '''') @ decimal (n div 10 ^ prec) @
         (if prec = 0 then ''''
          else ''.'' @ replicate (prec - length frac) (CHR ''0'') @ frac))"

subsection \<open>\<^verbatim>\<open>formatUptime\<close>\<close>

text \<open>
  \<^verbatim>\<open>time.Duration\<close> is an \<^verbatim>\<open>int64\<close> count of nanoseconds; \<^verbatim>\<open>Hours\<close> and
  \<^verbatim>\<open>Minutes\<close> are the methods of the standard library: the whole units by integer
  division (truncating, as Go divides), plus the remainder as a float fraction.
\<close>

definition Second :: int where "Second = 1000000000"
definition Minute :: int where "Minute = 60 * Second"
definition Hour :: int where "Hour = 60 * Minute"

definition Hours :: "int \<Rightarrow> rat" where
  "Hours d =
     (let hour = d sdiv Hour; nsec = d smod Hour
      in float64 (float64 (of_int hour) +
                  float64 (float64 (of_int nsec) / (60 * 60 * 1000000000))))"

definition Minutes :: "int \<Rightarrow> rat" where
  "Minutes d =
     (let mins = d sdiv Minute; nsec = d smod Minute
      in float64 (float64 (of_int mins) +
                  float64 (float64 (of_int nsec) / (60 * 1000000000))))"

text \<open>
  \<^verbatim>\<open>time.Duration(uptime) * time.Second\<close> reinterprets the 64 bits as signed and
  multiplies with wrap-around.
\<close>

definition formatUptime :: "64 word \<Rightarrow> string" where
  "formatUptime uptime =
     (let duration = sint (uptime * 1000000000);
          days = trunc (float64 (Hours duration / 24));
          hours = trunc (Hours duration) smod 24;
          minutes = trunc (Minutes duration) smod 60
      in fmt_d days @ ''d '' @ fmt_d hours @ ''h '' @ fmt_d minutes @ ''m'')"

text \<open>The uptime text as the specification words it, on the unbounded number of seconds.\<close>

definition formatUptime_claimed :: "nat \<Rightarrow> string" where
  "formatUptime_claimed s =
     decimal (s div 86400) @ ''d '' @ decimal (s div 3600 mod 24) @ ''h '' @
     decimal (s div 60 mod 60) @ ''m''"

subsection \<open>\<^verbatim>\<open>formatBytes\<close>\<close>

text \<open>The \<^verbatim>\<open>for\<close> loop: \<open>n\<close>, \<open>div\<close> and \<open>exp\<close> of the source.\<close>

function formatBytes_loop :: "64 word \<Rightarrow> 64 word \<Rightarrow> int \<Rightarrow> 64 word \<times> int" where
  "formatBytes_loop n dv expo =
     (if 1024 \<le> n then formatBytes_loop (n div 1024) (dv * 1024) (expo + 1) else (dv, expo))"
  by pat_completeness auto
termination
proof (relation "measure (\<lambda>(n, dv, expo). unat n)")
  show "wf (measure (\<lambda>(n, dv, expo). unat n))" by simp
next
  fix n dv :: "64 word" and expo :: int
  assume "1024 \<le> n"
  then have "1024 \<le> unat n" by (simp add: word_le_nat_alt)
  then have "unat n div 1024 < unat n" by simp
  then show "((n div 1024, dv * 1024, expo + 1), (n, dv, expo)) \<in> measure (\<lambda>(n, dv, expo). unat n)"
    by (simp add: unat_div)
qed

declare formatBytes_loop.simps [simp del]

text \<open>Indexing a string: out of range is a panic.\<close>

definition index_byte :: "string \<Rightarrow> int \<Rightarrow> panic + char" where
  "index_byte s i = (if 0 \<le> i \<and> i < int (length s) then Inr (s ! nat i) else Inl IndexOutOfRange)"

text \<open>
  A float division by zero is no panic in Go: it gives an infinity, which \<^verbatim>\<open>%.1f\<close>
  prints as \<^verbatim>\<open>+Inf\<close>. That branch is written out, since the rationals have no infinity.
\<close>

definition formatBytes :: "64 word \<Rightarrow> panic + string" where
  "formatBytes bytes =
     (if bytes < 1024 then Inr (decimal (unat bytes) @ '' B'')
      else (case formatBytes_loop (bytes div 1024) 1024 0 of
              (dv, expo) \<Rightarrow>
                (case index_byte ''KMGTPE'' expo of
                   Inl p \<Rightarrow> Inl p
                 | Inr c \<Rightarrow>
                     Inr ((if dv = 0 then ''+Inf''
                           else fmt_f 1 (float64 (float64 (of_nat (unat bytes)) /
                                                  float64 (of_nat (unat dv)))))
                          @ '' '' @ [c] @ ''iB''))))"

text \<open>
  The specification's words: the number of repeated integer divisions by 1024 that
  bring a value below 1024, and the text for a value \<open>v\<close> with the \<open>k\<close>-th suffix.
\<close>

fun divisions :: "nat \<Rightarrow> nat" where
  "divisions n = (if n < 1024 then 0 else Suc (divisions (n div 1024)))"

declare divisions.simps [simp del]

definition humanize :: "rat \<Rightarrow> nat \<Rightarrow> string" where
  "humanize v k = fmt_f 1 (v / 1024 ^ k) @ '' '' @ [''KMGTPE'' ! (k - 1)] @ ''iB''"

definition formatBytes_claimed :: "nat \<Rightarrow> string" where
  "formatBytes_claimed n =
     (if n < 1024 then decimal n @ '' B'' else humanize (of_nat n) (divisions n))"

subsection \<open>\<^verbatim>\<open>strings.Split\<close> and \<^verbatim>\<open>strings.TrimSpace\<close>\<close>

abbreviation newline :: char where
  "newline \<equiv> CHR 0x0A"

text \<open>
  \<^verbatim>\<open>strings.Split(s, sep)\<close> cuts \<^verbatim>\<open>s\<close> at every occurrence of \<^verbatim>\<open>sep\<close> and returns
  the pieces between them, empty pieces included. The program only calls it with the
  one-byte separator \<^verbatim>\<open>"\n"\<close>, which is the instance modelled.
\<close>

fun Split :: "string \<Rightarrow> char \<Rightarrow> string list" where
  "Split [] sep = [[]]"
| "Split (c # cs) sep =
     (if c = sep then [] # Split cs sep
      else (case Split cs sep of
              [] \<Rightarrow> [[c]]
            | seg # segs \<Rightarrow> (c # seg) # segs))"

text \<open>
  \<^verbatim>\<open>strings.TrimSpace\<close> removes the leading and the trailing runes for which
  \<^verbatim>\<open>unicode.IsSpace\<close> holds. On bytes: it strips, as often as one is there, a
  leading (then a trailing) UTF-8 encoding of a white-space code point.
\<close>

definition space_runes :: "string list" where
  "space_runes =
     [[CHR 0x09], [CHR 0x0A], [CHR 0x0B], [CHR 0x0C], [CHR 0x0D], [CHR 0x20],
      [CHR 0xC2, CHR 0x85], [CHR 0xC2, CHR 0xA0], [CHR 0xE1, CHR 0x9A, CHR 0x80],
      [CHR 0xE2, CHR 0x80, CHR 0x80], [CHR 0xE2, CHR 0x80, CHR 0x81],
      [CHR 0xE2, CHR 0x80, CHR 0x82], [CHR 0xE2, CHR 0x80, CHR 0x83],
      [CHR 0xE2, CHR 0x80, CHR 0x84], [CHR 0xE2, CHR 0x80, CHR 0x85],
      [CHR 0xE2, CHR 0x80, CHR 0x86], [CHR 0xE2, CHR 0x80, CHR 0x87],
      [CHR 0xE2, CHR 0x80, CHR 0x88], [CHR 0xE2, CHR 0x80, CHR 0x89],
      [CHR 0xE2, CHR 0x80, CHR 0x8A], [CHR 0xE2, CHR 0x80, CHR 0xA8],
      [CHR 0xE2, CHR 0x80, CHR 0xA9], [CHR 0xE2, CHR 0x80, CHR 0xAF],
      [CHR 0xE2, CHR 0x81, CHR 0x9F], [CHR 0xE3, CHR 0x80, CHR 0x80]]"

function strip_runes :: "string list \<Rightarrow> string \<Rightarrow> string" where
  "strip_runes encs s =
     (case find (\<lambda>e. e \<noteq> [] \<and> take (length e) s = e) encs of
        None \<Rightarrow> s
      | Some e \<Rightarrow> strip_runes encs (drop (length e) s))"
  by pat_completeness auto
termination
proof (relation "measure (\<lambda>(encs, s). length s)")
  show "wf (measure (\<lambda>(encs, s). length s))" by simp
next
  fix encs :: "string list" and s e :: string
  assume "find (\<lambda>e. e \<noteq> [] \<and> take (length e) s = e) encs = Some e"
  then have e: "e \<noteq> []" "take (length e) s = e" by (auto simp: find_Some_iff)
  from e(2) have "length (take (length e) s) = length e" by simp
  then have "length e \<le> length s" by simp
  with e(1) have "length (drop (length e) s) < length s" by (cases e) simp_all
  then show "((encs, drop (length e) s), (encs, s)) \<in> measure (\<lambda>(encs, s). length s)" by simp
qed

declare strip_runes.simps [simp del]

definition TrimSpace :: "string \<Rightarrow> string" where
  "TrimSpace s = rev (strip_runes (map rev space_runes) (rev (strip_runes space_runes s)))"

text \<open>
  White space, in words: the code points for which \<^verbatim>\<open>unicode.IsSpace\<close> holds, which are
  \<^verbatim>\<open>\t\<close>, \<^verbatim>\<open>\n\<close>, \<^verbatim>\<open>\v\<close>, \<^verbatim>\<open>\f\<close>, \<^verbatim>\<open>\r\<close>, the blank, \<open>U+0085\<close>, \<open>U+00A0\<close> and
  the other code points of the category \<open>White_Space\<close>; and the bytes of a code point
  in UTF-8.
\<close>

definition white_space :: "nat list" where
  "white_space =
     [0x09, 0x0A, 0x0B, 0x0C, 0x0D, 0x20, 0x85, 0xA0, 0x1680, 0x2000, 0x2001, 0x2002, 0x2003,
      0x2004, 0x2005, 0x2006, 0x2007, 0x2008, 0x2009, 0x200A, 0x2028, 0x2029, 0x202F, 0x205F,
      0x3000]"

definition utf8_bytes :: "nat \<Rightarrow> nat list" where
  "utf8_bytes r =
     (if r < 0x80 then [r]
      else if r < 0x800 then [0xC0 + r div 0x40, 0x80 + r mod 0x40]
      else if r < 0x10000 then
        [0xE0 + r div 0x1000, 0x80 + r div 0x40 mod 0x40, 0x80 + r mod 0x40]
      else [0xF0 + r div 0x40000, 0x80 + r div 0x1000 mod 0x40, 0x80 + r div 0x40 mod 0x40,
            0x80 + r mod 0x40])"

text \<open>
  Trimming, in words: a run of white space is a sequence of encodings of white-space
  code points; a string starts (ends) with white space when one of the encodings is a
  prefix (a suffix) of it.
\<close>

definition space_run :: "string \<Rightarrow> bool" where
  "space_run s \<longleftrightarrow> (\<exists>rs. list_all (\<lambda>r. r \<in> set space_runes) rs \<and> s = concat rs)"

definition starts_with_space :: "string \<Rightarrow> bool" where
  "starts_with_space s \<longleftrightarrow> list_ex (\<lambda>e. take (length e) s = e) space_runes"

definition ends_with_space :: "string \<Rightarrow> bool" where
  "ends_with_space s \<longleftrightarrow> list_ex (\<lambda>e. drop (length s - length e) s = e) space_runes"

subsection \<open>\<^verbatim>\<open>regexp\<close> and \<^verbatim>\<open>cleanGPUName\<close>\<close>

text \<open>
  The pattern \<^verbatim>\<open>^[A-Z0-9]+\s*\[(.+)\]$\<close> is a sequence of character classes, each taken
  once, once or more (\<^verbatim>\<open>+\<close>) or any number of times (\<^verbatim>\<open>*\<close>), one of them a capture
  group, between the anchors of the text's two ends. \<open>match_here\<close> is the leftmost-first
  search of \<^verbatim>\<open>regexp\<close> for such patterns: every repetition is greedy and gives
  characters back one at a time until the rest of the pattern matches the rest of the
  text to its end. It returns the capture groups. The classes are sets of bytes: a
  class of the pattern that holds non-ASCII runes (\<^verbatim>\<open>.\<close>) holds every byte of them.
\<close>

datatype quant = One | Plus | Star

datatype atom = Atom (cls: "char \<Rightarrow> bool") (rep: quant) (captured: bool)

text \<open>The numbers of bytes an atom may take from the text, in the order of the search.\<close>

fun lens :: "atom \<Rightarrow> string \<Rightarrow> nat list" where
  "lens (Atom p One g) s = (case s of [] \<Rightarrow> [] | c # cs \<Rightarrow> if p c then [1] else [])"
| "lens (Atom p Plus g) s = rev [1 ..< Suc (length (takeWhile p s))]"
| "lens (Atom p Star g) s = rev [0 ..< Suc (length (takeWhile p s))]"

fun first_match :: "('a \<Rightarrow> 'b option) \<Rightarrow> 'a list \<Rightarrow> 'b option" where
  "first_match f [] = None"
| "first_match f (x # xs) = (case f x of Some y \<Rightarrow> Some y | None \<Rightarrow> first_match f xs)"

fun match_here :: "atom list \<Rightarrow> string \<Rightarrow> string list option" where
  "match_here [] s = (if s = [] then Some [] else None)"
| "match_here (a # as) s =
     first_match
       (\<lambda>n. case match_here as (drop n s) of
              None \<Rightarrow> None
            | Some caps \<Rightarrow> Some (if captured a then take n s # caps else caps))
       (lens a s)"

text \<open>\<^verbatim>\<open>FindStringSubmatch\<close>: nil without a match, else the whole match and the groups.\<close>

definition FindStringSubmatch :: "atom list \<Rightarrow> string \<Rightarrow> string list" where
  "FindStringSubmatch re s = (case match_here re s of None \<Rightarrow> [] | Some caps \<Rightarrow> s # caps)"

definition upper_or_digit :: "char \<Rightarrow> bool" where
  "upper_or_digit c \<longleftrightarrow> c \<in> set ''ABCDEFGHIJKLMNOPQRSTUVWXYZ0123456789''"

text \<open>The class \<^verbatim>\<open>\s\<close> of \<^verbatim>\<open>regexp\<close>: tab, line feed, form feed, carriage return, blank.\<close>

definition re_space :: "char \<Rightarrow> bool" where
  "re_space c \<longleftrightarrow> c \<in> set [CHR 0x09, CHR 0x0A, CHR 0x0C, CHR 0x0D, CHR 0x20]"

definition gpu_re :: "atom list" where
  "gpu_re =
     [Atom upper_or_digit Plus False, Atom re_space Star False,
      Atom (\<lambda>c. c = CHR ''['') One False, Atom (\<lambda>c. c \<noteq> newline) Plus True,
      Atom (\<lambda>c. c = CHR '']'') One False]"

definition cleanGPUName :: "string \<Rightarrow> string" where
  "cleanGPUName name =
     (let matches = FindStringSubmatch gpu_re name
      in if length matches > 1 then TrimSpace (matches ! 1) else name)"

text \<open>
  The specification's words: the whole of \<open>s\<close> is one or more upper-case letters or
  digits, optional white space, and a bracketed suffix \<open>C\<close> that ends the string.
\<close>

definition matches_pattern :: "string \<Rightarrow> string \<Rightarrow> bool" where
  "matches_pattern s C \<longleftrightarrow>
     (\<exists>P W. s = P @ W @ ''['' @ C @ '']'' \<and> P \<noteq> [] \<and> list_all upper_or_digit P \<and>
            list_all re_space W \<and> C \<noteq> [] \<and> newline \<notin> set C)"

text \<open>A piece of text an atom can take.\<close>

definition conforms :: "atom \<Rightarrow> string \<Rightarrow> bool" where
  "conforms a piece \<longleftrightarrow>
     list_all (cls a) piece \<and>
     (case rep a of One \<Rightarrow> length piece = 1 | Plus \<Rightarrow> piece \<noteq> [] | Star \<Rightarrow> True)"

subsection \<open>\<^verbatim>\<open>filepath.Base\<close>\<close>

text \<open>
  On Unix: the empty path gives \<^verbatim>\<open>.\<close>; trailing slashes are dropped; what follows the
  last slash is the result, and \<^verbatim>\<open>/\<close> when nothing is left.
\<close>

definition Base :: "string \<Rightarrow> string" where
  "Base path =
     (if path = [] then ''.''
      else let stripped = rev (dropWhile (\<lambda>c. c = CHR ''/'') (rev path));
               elem = rev (takeWhile (\<lambda>c. c \<noteq> CHR ''/'') (rev stripped))
           in if elem = [] then ''/'' else elem)"

text \<open>
  The final segment of a path, in words: the last non-empty run without a slash, which
  only slashes may follow.
\<close>

definition final_segment :: "string \<Rightarrow> string \<Rightarrow> bool" where
  "final_segment path seg \<longleftrightarrow>
     (\<exists>pre slashes. path = pre @ seg @ slashes \<and> seg \<noteq> [] \<and> CHR ''/'' \<notin> set seg \<and>
        list_all (\<lambda>c. c = CHR ''/'') slashes \<and> (pre = [] \<or> last pre = CHR ''/''))"

subsection \<open>The package counter\<close>

record InfoStat =
  Platform :: string
  PlatformVersion :: string
  KernelVersion :: string
  Uptime :: "64 word"

datatype Cmd = Command string "string list"

text \<open>What the package counter does to the outside world, in order.\<close>

datatype event = Probe string | Exec Cmd

text \<open>
  The collaborators of \<^verbatim>\<open>getPackageCount\<close>: its own call of \<^verbatim>\<open>host.Info()\<close>,
  \<^verbatim>\<open>runtime.GOOS\<close>, \<^verbatim>\<open>exec.LookPath\<close> and \<^verbatim>\<open>cmd.Output()\<close>, each with the
  result pair of its Go signature.
\<close>

record PkgWorld =
  host_Info_again :: "InfoStat option \<times> error option"
  GOOS :: string
  LookPath :: "string \<Rightarrow> string \<times> error option"
  Output :: "Cmd \<Rightarrow> string \<times> error option"

text \<open>
  The inner \<^verbatim>\<open>switch osInfo.Platform\<close>: the command chosen, or the error of its last
  branch, with the probes of the search path that were made on the way.
\<close>

definition select_by_platform ::
  "string \<Rightarrow> (string \<Rightarrow> string \<times> error option) \<Rightarrow> event list \<times> (error + Cmd)" where
  "select_by_platform platform look =
     (if platform = ''debian'' \<or> platform = ''ubuntu'' then
        ([], Inr (Command ''dpkg'' [''--get-selections'']))
      else if platform = ''arch'' then
        ([], Inr (Command ''pacman'' [''-Q'']))
      else if platform = ''fedora'' \<or> platform = ''centos'' \<or> platform = ''rhel'' then
        ([], Inr (Command ''rpm'' [''-qa'']))
      else if snd (look ''dpkg'') = None then
        ([Probe ''dpkg''], Inr (Command ''dpkg'' [''--get-selections'']))
      else if snd (look ''pacman'') = None then
        ([Probe ''dpkg'', Probe ''pacman''], Inr (Command ''pacman'' [''-Q'']))
      else if snd (look ''rpm'') = None then
        ([Probe ''dpkg'', Probe ''pacman'', Probe ''rpm''], Inr (Command ''rpm'' [''-qa'']))
      else
        ([Probe ''dpkg'', Probe ''pacman'', Probe ''rpm''],
         Inl (Errorf ''unsupported Linux distribution'')))"

definition getPackageCount ::
  "'a PkgWorld_scheme \<Rightarrow> event list \<times> (panic + int \<times> error option)" where
  "getPackageCount w =
     (case host_Info_again w of
        (osInfo, Some err) \<Rightarrow> ([], Inr (0, Some err))
      | (osInfo, None) \<Rightarrow>
          if GOOS w = ''linux'' then
            (case osInfo of
               None \<Rightarrow> ([], Inl NilDereference)
             | Some info \<Rightarrow>
                 (case select_by_platform (Platform info) (LookPath w) of
                    (probes, Inl err) \<Rightarrow> (probes, Inr (0, Some err))
                  | (probes, Inr cmd) \<Rightarrow>
                      (case Output w cmd of
                         (out, Some err) \<Rightarrow> (probes @ [Exec cmd], Inr (0, Some err))
                       | (out, None) \<Rightarrow>
                           (probes @ [Exec cmd],
                            Inr (int (length (Split out newline)) - 1, None)))))
          else ([], Inr (0, Some (Errorf ''Unsupported OS for package counting''))))"

text \<open>
  The specification's words: a fixed table from the platform identity to the command,
  and the tools probed in order for every other identity.
\<close>

definition command_table :: "(string \<times> Cmd) list" where
  "command_table =
     [(''debian'', Command ''dpkg'' [''--get-selections'']),
      (''ubuntu'', Command ''dpkg'' [''--get-selections'']),
      (''arch'', Command ''pacman'' [''-Q'']),
      (''fedora'', Command ''rpm'' [''-qa'']),
      (''centos'', Command ''rpm'' [''-qa'']),
      (''rhel'', Command ''rpm'' [''-qa''])]"

definition probe_order :: "(string \<times> Cmd) list" where
  "probe_order =
     [(''dpkg'', Command ''dpkg'' [''--get-selections'']),
      (''pacman'', Command ''pacman'' [''-Q'']),
      (''rpm'', Command ''rpm'' [''-qa''])]"

definition select_spec :: "string \<Rightarrow> (string \<Rightarrow> bool) \<Rightarrow> string list \<times> (error + Cmd)" where
  "select_spec platform found =
     (case map_of command_table platform of
        Some cmd \<Rightarrow> ([], Inr cmd)
      | None \<Rightarrow>
          (case find (\<lambda>(tool, cmd). found tool) probe_order of
             Some (tool, cmd) \<Rightarrow>
               (map fst (takeWhile (\<lambda>(t, c). \<not> found t) probe_order) @ [tool], Inr cmd)
           | None \<Rightarrow> (map fst probe_order, Inl (Errorf ''unsupported Linux distribution''))))"

subsection \<open>CPU and GPU\<close>

record cpu_InfoStat =
  ModelName :: string
  Mhz :: rat

record VirtualMemoryStat =
  Total :: "64 word"
  Used :: "64 word"

record Vendor =
  Vendor_Name :: string

record Product =
  Product_Name :: string

record Device =
  Device_Vendor :: "Vendor option"
  Device_Product :: "Product option"

record GraphicsCard =
  DeviceInfo :: "Device option"

record gpu_Info =
  GraphicsCards :: "GraphicsCard option list"

text \<open>
  All collaborators of a run. \<open>host_Info\<close> is the call of \<^verbatim>\<open>host.Info()\<close> in
  \<^verbatim>\<open>main\<close>, \<open>host_Info_again\<close> the one in \<^verbatim>\<open>getPackageCount\<close>; \<open>color_blocks\<close> is
  what \<^verbatim>\<open>printColorBlocks\<close> writes before its line break, which depends on the colour
  profile of the terminal only.
\<close>

record World = PkgWorld +
  Hostname :: "string \<times> error option"
  Getenv :: "string \<Rightarrow> string"
  host_Info :: "InfoStat option \<times> error option"
  VirtualMemory :: "VirtualMemoryStat option \<times> error option"
  cpu_Info :: "cpu_InfoStat list \<times> error option"
  NumCPU :: int
  ghw_GPU :: "gpu_Info option \<times> error option"
  color_blocks :: string

definition getCPUInfo :: "'a World_scheme \<Rightarrow> string \<times> int \<times> rat" where
  "getCPUInfo w =
     (case cpu_Info w of
        (cpuInfo, err) \<Rightarrow>
          if err \<noteq> None \<or> length cpuInfo = 0 then (''Unknown'', NumCPU w, 0)
          else (ModelName (hd cpuInfo), NumCPU w, float64 (Mhz (hd cpuInfo) / 1000)))"

definition getGPUInfo :: "gpu_Info option \<times> error option \<Rightarrow> panic + string \<times> error option" where
  "getGPUInfo r =
     (case r of
        (gpu, Some err) \<Rightarrow> Inr ('''', Some err)
      | (None, None) \<Rightarrow> Inl NilDereference
      | (Some gpu, None) \<Rightarrow>
          (case GraphicsCards gpu of
             [] \<Rightarrow> Inr (''None'', None)
           | None # cards \<Rightarrow> Inl NilDereference
           | Some gcard # cards \<Rightarrow>
               (case DeviceInfo gcard of
                  None \<Rightarrow> Inl NilDereference
                | Some dev \<Rightarrow>
                    (case Device_Product dev of
                       Some pinfo \<Rightarrow> Inr (cleanGPUName (Product_Name pinfo), None)
                     | None \<Rightarrow>
                         (case Device_Vendor dev of
                            None \<Rightarrow> Inl NilDereference
                          | Some vendor \<Rightarrow>
                              Inr (''Unknown GPU (Vendor: '' @ Vendor_Name vendor @ '')'',
                                   None))))))"

subsection \<open>The presenter and \<^verbatim>\<open>main\<close>\<close>

definition esc :: char where "esc = CHR 0x1B"

definition text_colour :: string where "text_colour = esc # ''[34m''"
definition category :: string where "category = esc # ''[95m''"
definition hostcol :: string where "hostcol = esc # ''[34m''"
definition reset :: string where "reset = esc # ''[0m''"

definition colourise :: "string \<Rightarrow> string \<Rightarrow> string" where
  "colourise txt color = color @ txt @ reset"

type_synonym row = "string \<times> string"

text \<open>
  The table \<^verbatim>\<open>info\<close> with the \<^verbatim>\<open>Packages\<close> row appended. \<^verbatim>\<open>osInfo\<close> and
  \<^verbatim>\<open>memInfo\<close> are the pointers \<^verbatim>\<open>main\<close> received; it reads their fields without a
  check. \<open>err\<close> is the variable \<^verbatim>\<open>err\<close> of \<^verbatim>\<open>main\<close> at that point.
\<close>

definition info_table ::
  "'a World_scheme \<Rightarrow> string \<Rightarrow> string \<times> int \<times> rat \<Rightarrow> string \<Rightarrow> int \<Rightarrow> error option \<Rightarrow>
     panic + row list" where
  "info_table w hostname cpu gpu packageCount err =
     (case cpu of
        (cpuModel, logicalCores, cpuSpeed) \<Rightarrow>
          (case fst (host_Info w) of
             None \<Rightarrow> Inl NilDereference
           | Some osInfo \<Rightarrow>
               (case fst (VirtualMemory w) of
                  None \<Rightarrow> Inl NilDereference
                | Some memInfo \<Rightarrow>
                    (case formatBytes (Used memInfo) of
                       Inl p \<Rightarrow> Inl p
                     | Inr usedText \<Rightarrow>
                         (case formatBytes (Total memInfo) of
                            Inl p \<Rightarrow> Inl p
                          | Inr totalText \<Rightarrow>
                              Inr ([(''Hostname'', hostname),
                                    (''OS'', Platform osInfo @ '' '' @ PlatformVersion osInfo),
                                    (''Kernel'', KernelVersion osInfo),
                                    (''Uptime'', formatUptime (Uptime osInfo)),
                                    (''Shell'', Base (Getenv w ''SHELL'')),
                                    (''CPU'', cpuModel @ '' ('' @ fmt_d logicalCores @
                                              '' cores @ '' @ fmt_f 2 cpuSpeed @ '' GHz)''),
                                    (''GPU'', gpu),
                                    (''Memory'', usedText @ '' / '' @ totalText)]
                                   @ [(''Packages'',
                                       if 0 \<le> packageCount then fmt_d packageCount
                                       else ''Unable to determine ('' @ fmt_s_error err @ '')'')]))))))"

definition maxLabelLength :: "row list \<Rightarrow> int" where
  "maxLabelLength info =
     fold (\<lambda>item m. if int (length (fst item)) > m then int (length (fst item)) else m) info 0"

definition print_rows :: "row list \<Rightarrow> string" where
  "print_rows info =
     concat (map (\<lambda>item. colourise (fst item) category @
                          fmt_pad (maxLabelLength info - int (length (fst item))) '''' @ '' '' @
                          colourise (snd item) text_colour @ [newline]) info)"

definition header :: "string \<Rightarrow> string \<Rightarrow> string" where
  "header username hostname =
     esc # ''[1m'' @ colourise username hostcol @ ''@'' @ colourise hostname hostcol @
     esc # ''[0m'' @ [newline]"

text \<open>
  \<^verbatim>\<open>main\<close>: what it wrote to the standard output, and the panic that ended it, if
  one did. The redirection of the standard error stream to a log file writes nothing to
  the standard output and is left out. \<^verbatim>\<open>gpu, err := getGPUInfo()\<close> assigns the
  variable \<^verbatim>\<open>err\<close> that \<^verbatim>\<open>packageCount, err := getPackageCount()\<close> assigned before:
  both short declarations stand in the block of the function body, which declared
  \<^verbatim>\<open>err\<close> in its first statement.
\<close>

definition main :: "'a World_scheme \<Rightarrow> string \<times> panic option" where
  "main w =
     (let hostname = fst (Hostname w);
          username = Getenv w ''USER'';
          cpu = getCPUInfo w
      in case snd (getPackageCount w) of
           Inl p \<Rightarrow> ('''', Some p)
         | Inr (count, err1) \<Rightarrow>
             let packageCount = (if err1 \<noteq> None then - 1 else count)
             in (case getGPUInfo (ghw_GPU w) of
                   Inl p \<Rightarrow> ('''', Some p)
                 | Inr (name, err) \<Rightarrow>
                     let gpu = (if err \<noteq> None then ''None'' else name)
                     in (case info_table w hostname cpu gpu packageCount err of
                           Inl p \<Rightarrow> (header username hostname, Some p)
                         | Inr info \<Rightarrow>
                             (header username hostname @ print_rows info @
                              color_blocks w @ [newline],
                              None))))"

subsection \<open>The presenter and \<^verbatim>\<open>main\<close> of \<^verbatim>\<open>go-fetch.go\<close>\<close>

text \<open>
  The repository holds a second text of the program, \<^verbatim>\<open>go-fetch.go\<close>, with the same
  formatters and the same package counter. Its \<^verbatim>\<open>main\<close> has no GPU row and no colours;
  its rows are whole lines \<^verbatim>\<open>label: value\<close>, the value of \<^verbatim>\<open>SHELL\<close> stands in its line as
  it is, and \<^verbatim>\<open>err\<close> is still the error of \<^verbatim>\<open>getPackageCount\<close> when the last line is
  built. \<^verbatim>\<open>osInfo\<close> and \<^verbatim>\<open>memInfo\<close> are read without a check here as well.
\<close>

definition go_fetch_lines ::
  "'a World_scheme \<Rightarrow> string \<Rightarrow> string \<Rightarrow> int \<Rightarrow> rat \<Rightarrow> int \<Rightarrow> error option \<Rightarrow>
     panic + string list" where
  "go_fetch_lines w hostname cpuModel logicalCores cpuSpeed packageCount err =
     (case fst (host_Info w) of
        None \<Rightarrow> Inl NilDereference
      | Some osInfo \<Rightarrow>
          (case fst (VirtualMemory w) of
             None \<Rightarrow> Inl NilDereference
           | Some memInfo \<Rightarrow>
               (case formatBytes (Used memInfo) of
                  Inl p \<Rightarrow> Inl p
                | Inr usedText \<Rightarrow>
                    (case formatBytes (Total memInfo) of
                       Inl p \<Rightarrow> Inl p
                     | Inr totalText \<Rightarrow>
                         Inr ([''Hostname: '' @ hostname,
                               ''OS: '' @ Platform osInfo @ '' '' @ PlatformVersion osInfo,
                               ''Kernel: '' @ KernelVersion osInfo,
                               ''Uptime: '' @ formatUptime (Uptime osInfo),
                               ''Shell: '' @ Getenv w ''SHELL'',
                               ''CPU: '' @ cpuModel @ '' ('' @ fmt_d logicalCores @
                                 '' cores @ '' @ fmt_f 2 cpuSpeed @ '' GHz)'',
                               ''Memory: '' @ usedText @ '' / '' @ totalText]
                              @ [if 0 \<le> packageCount
                                 then ''Installed Packages: '' @ fmt_d packageCount
                                 else ''Installed Packages: Unable to determine ('' @
                                      fmt_s_error err @ '')''])))))"

text \<open>
  The loop over \<^verbatim>\<open>info\<close> that finds \<^verbatim>\<open>maxLength\<close>, and the box: a rule of
  \<^verbatim>\<open>maxLength+4\<close> dashes, every line through \<^verbatim>\<open>"| %-*s |\n"\<close> with the width
  \<^verbatim>\<open>maxLength\<close>, and the rule again. The count of \<^verbatim>\<open>strings.Repeat\<close> is never negative
  here.
\<close>

definition maxLength :: "string list \<Rightarrow> int" where
  "maxLength info =
     fold (\<lambda>line m. if int (length line) > m then int (length line) else m) info 0"

definition print_box :: "string list \<Rightarrow> string" where
  "print_box info =
     replicate (nat (maxLength info + 4)) (CHR ''-'') @ [newline] @
     concat (map (\<lambda>line. ''| '' @ fmt_pad (maxLength info) line @ '' |'' @ [newline]) info) @
     replicate (nat (maxLength info + 4)) (CHR ''-'') @ [newline]"

text \<open>
  The first two lines: user and host in bold, and a rule as long as the two names and
  the \<^verbatim>\<open>@\<close> between them.
\<close>

definition header_go_fetch :: "string \<Rightarrow> string \<Rightarrow> string" where
  "header_go_fetch username hostname =
     esc # ''[1m'' @ username @ ''@'' @ hostname @ esc # ''[0m'' @ [newline] @
     replicate (nat (int (length username) + int (length hostname) + 1)) (CHR ''-'') @ [newline]"

text \<open>
  \<^verbatim>\<open>main\<close> of \<^verbatim>\<open>go-fetch.go\<close>: what it wrote to the standard output, and the panic that
  ended it, if one did. It reads \<^verbatim>\<open>cpu.Info()\<close> itself and ignores its error.
\<close>

definition main_go_fetch :: "'a World_scheme \<Rightarrow> string \<times> panic option" where
  "main_go_fetch w =
     (let hostname = fst (Hostname w);
          username = Getenv w ''USER'';
          cpuInfo = fst (cpu_Info w);
          cpuModel = (if length cpuInfo > 0 then ModelName (hd cpuInfo) else ''Unknown'');
          cpuSpeed = (if length cpuInfo > 0 then float64 (Mhz (hd cpuInfo) / 1000) else 0);
          logicalCores = NumCPU w
      in case snd (getPackageCount w) of
           Inl p \<Rightarrow> ('''', Some p)
         | Inr (count, err) \<Rightarrow>
             let packageCount = (if err \<noteq> None then - 1 else count)
             in (case go_fetch_lines w hostname cpuModel logicalCores cpuSpeed packageCount err of
                   Inl p \<Rightarrow> (header_go_fetch username hostname, Some p)
                 | Inr info \<Rightarrow> (header_go_fetch username hostname @ print_box info, None)))"

subsection \<open>The printed text, byte by byte\<close>

text \<open>
  The lines on the standard output, written out with the escape sequences as bytes and
  without the constants and helpers of the program: a row of the table of \<^verbatim>\<open>part_000\<close>
  for a given width of the label column, and a line of the box of \<^verbatim>\<open>go-fetch.go\<close> for a
  given width of the box.
\<close>

definition row_text :: "nat \<Rightarrow> row \<Rightarrow> string" where
  "row_text width item =
     CHR 0x1B # ''[95m'' @ fst item @ CHR 0x1B # ''[0m'' @
     replicate (width - length (fst item)) (CHR '' '') @ '' '' @
     CHR 0x1B # ''[34m'' @ snd item @ CHR 0x1B # ''[0m'' @ [newline]"

definition boxed_text :: "nat \<Rightarrow> string \<Rightarrow> string" where
  "boxed_text width line =
     ''| '' @ line @ replicate (width - RuneCountInString line) (CHR '' '') @ '' |'' @ [newline]"

text \<open>The heading of \<^verbatim>\<open>part_000\<close> and the heading and rule of \<^verbatim>\<open>go-fetch.go\<close>.\<close>

definition heading_text :: "string \<Rightarrow> string \<Rightarrow> string" where
  "heading_text username hostname =
     CHR 0x1B # ''[1m'' @ CHR 0x1B # ''[34m'' @ username @ CHR 0x1B # ''[0m'' @ ''@'' @
     CHR 0x1B # ''[34m'' @ hostname @ CHR 0x1B # ''[0m'' @ CHR 0x1B # ''[0m'' @ [newline]"

definition title_text :: "string \<Rightarrow> string \<Rightarrow> string" where
  "title_text username hostname =
     CHR 0x1B # ''[1m'' @ username @ ''@'' @ hostname @ CHR 0x1B # ''[0m'' @ [newline] @
     replicate (length username + length hostname + 1) (CHR ''-'') @ [newline]"

text \<open>
  What a terminal shows of a text: an escape character, and what follows it up to the
  next \<^verbatim>\<open>m\<close>, selects a colour and takes no column.
\<close>

function shown :: "string \<Rightarrow> string" where
  "shown [] = []"
| "shown (c # cs) =
     (if c = CHR 0x1B then shown (drop 1 (dropWhile (\<lambda>d. d \<noteq> CHR ''m'') cs))
      else c # shown cs)"
  by pat_completeness auto
termination
proof (relation "measure length")
  show "wf (measure length)" by simp
next
  fix c :: char and cs :: string
  have "length (dropWhile (\<lambda>d. d \<noteq> CHR ''m'') cs) \<le> length cs" by (rule length_dropWhile_le)
  then show "(drop 1 (dropWhile (\<lambda>d. d \<noteq> CHR ''m'') cs), c # cs) \<in> measure length" by simp
next
  fix c :: char and cs :: string
  show "(cs, c # cs) \<in> measure length" by simp
qed

subsection \<open>Example worlds\<close>

text \<open>The host of the specification's end-to-end example.\<close>

definition box_info :: InfoStat where
  "box_info =
     \<lparr>Platform = ''ubuntu'', PlatformVersion = ''22.04'', KernelVersion = ''5.15.0'',
      Uptime = 3661\<rparr>"

definition box :: World where
  "box =
     \<lparr>host_Info_again = (Some box_info, None),
      GOOS = ''linux'',
      LookPath = (\<lambda>name. ('''', Some (Errorf ''executable file not found in $PATH''))),
      Output = (\<lambda>cmd. ([CHR ''p'', CHR ''1'', newline, CHR ''p'', CHR ''2'', newline], None)),
      Hostname = (''box'', None),
      Getenv = (\<lambda>name. if name = ''USER'' then ''alice''
                        else if name = ''SHELL'' then ''/bin/bash'' else ''''),
      host_Info = (Some box_info, None),
      VirtualMemory = (Some \<lparr>Total = 2147483648, Used = 1073741824\<rparr>, None),
      cpu_Info = ([\<lparr>ModelName = ''TestCPU'', Mhz = 2500\<rparr>], None),
      NumCPU = 4,
      ghw_GPU =
        (Some \<lparr>GraphicsCards =
           [Some \<lparr>DeviceInfo =
              Some \<lparr>Device_Vendor = Some \<lparr>Vendor_Name = ''TestVendor''\<rparr>,
                    Device_Product = Some \<lparr>Product_Name = ''0xAB [TestGPU]''\<rparr>\<rparr>\<rparr>]\<rparr>,
         None),
      color_blocks = ''''\<rparr>"

text \<open>An Arch host whose package listing prints \<open>out\<close>.\<close>

definition arch_world :: "string \<Rightarrow> PkgWorld" where
  "arch_world out =
     \<lparr>host_Info_again = (Some (box_info\<lparr>Platform := ''arch''\<rparr>), None),
      GOOS = ''linux'',
      LookPath = (\<lambda>name. ('''', Some (Errorf ''executable file not found in $PATH''))),
      Output = (\<lambda>cmd. if cmd = Command ''pacman'' [''-Q''] then (out, None)
                      else ('''', Some (Errorf ''exit status 1'')))\<rparr>"

text \<open>The rows that \<^verbatim>\<open>main\<close> prints on that host.\<close>

definition box_rows :: "row list" where
  "box_rows =
     [(''Hostname'', ''box''), (''OS'', ''ubuntu 22.04''), (''Kernel'', ''5.15.0''),
      (''Uptime'', ''0d 1h 1m''), (''Shell'', ''bash''),
      (''CPU'', ''TestCPU (4 cores @ 2.50 GHz)''), (''GPU'', ''0xAB [TestGPU]''),
      (''Memory'', ''1.0 GiB / 2.0 GiB''), (''Packages'', ''2'')]"

text \<open>
  The same host with one collaborator changed: \<^verbatim>\<open>host.Info()\<close> fails in \<^verbatim>\<open>main\<close> and
  returns no record; the first graphics card has no device information; the package
  listing command exits with an error.
\<close>

definition box_no_host_info :: World where
  "box_no_host_info = box\<lparr>host_Info := (None, Some (Errorf ''host info unavailable''))\<rparr>"

definition box_bare_card :: World where
  "box_bare_card = box\<lparr>ghw_GPU := (Some \<lparr>GraphicsCards = [Some \<lparr>DeviceInfo = None\<rparr>]\<rparr>, None)\<rparr>"

definition box_listing_fails :: World where
  "box_listing_fails = box\<lparr>Output := (\<lambda>cmd. ('''', Some (Errorf ''exit status 1'')))\<rparr>"

text \<open>The lines that \<^verbatim>\<open>main\<close> of \<^verbatim>\<open>go-fetch.go\<close> prints on the example host.\<close>

definition box_lines :: "string list" where
  "box_lines =
     [''Hostname: box'', ''OS: ubuntu 22.04'', ''Kernel: 5.15.0'', ''Uptime: 0d 1h 1m'',
      ''Shell: /bin/bash'', ''CPU: TestCPU (4 cores @ 2.50 GHz)'', ''Memory: 1.0 GiB / 2.0 GiB'',
      ''Installed Packages: 2'']"

text \<open>The example host with no \<^verbatim>\<open>SHELL\<close> in the environment.\<close>

definition box_no_shell :: World where
  "box_no_shell = box\<lparr>Getenv := (\<lambda>name. if name = ''USER'' then ''alice'' else '''')\<rparr>"

section \<open>Properties of the embedding\<close>

subsection \<open>Rounding to a double\<close>

lemma round_even_le: "x \<le> of_int M \<Longrightarrow> round_even x \<le> M"
  unfolding round_even_def Let_def by (auto; linarith)

lemma round_even_ge: "of_int M \<le> x \<Longrightarrow> M \<le> round_even x"
  unfolding round_even_def Let_def by (auto; linarith)

lemma norm_up_spec:
  "0 < x \<Longrightarrow> norm_up x e = (m, e') \<Longrightarrow>
     m * 2 powi e' = x * 2 powi e \<and> e \<le> e' \<and> 0 < m \<and> m < 2 ^ 53 \<and>
     (2 ^ 53 \<le> x \<longrightarrow> 2 ^ 52 \<le> m) \<and> (x < 2 ^ 53 \<longrightarrow> m = x \<and> e' = e)"
proof (induction x e rule: norm_up.induct)
  case (1 x e)
  show ?case
  proof (cases "2 ^ 53 \<le> x")
    case True
    then have eq: "norm_up (x / 2) (e + 1) = (m, e')"
      using "1.prems"(2) by (simp add: norm_up.simps [of x e])
    have pos: "0 < x / 2" using "1.prems"(1) by simp
    note ih = "1.IH" [OF True pos eq]
    have "x / 2 * 2 powi (e + 1) = x * 2 powi e"
      by (simp add: power_int_add)
    moreover have "2 ^ 52 \<le> m"
    proof (cases "2 ^ 53 \<le> x / 2")
      case True then show ?thesis using ih by simp
    next
      case False
      then have "m = x / 2" using ih by simp
      then show ?thesis using True by simp
    qed
    ultimately show ?thesis using ih True by auto
  next
    case False
    then show ?thesis using "1.prems" by (simp add: norm_up.simps [of x e])
  qed
qed

lemma norm_down_spec:
  "0 < x \<Longrightarrow> x < 2 ^ 53 \<Longrightarrow> norm_down k x e = (m, e') \<Longrightarrow>
     m * 2 powi e' = x * 2 powi e \<and> e - int k \<le> e' \<and> x \<le> m \<and> m < 2 ^ 53 \<and>
     (2 ^ 52 \<le> m \<or> e' = e - int k)"
proof (induction k arbitrary: x e)
  case 0
  then show ?case by simp
next
  case (Suc k)
  show ?case
  proof (cases "x < 2 ^ 52")
    case True
    then have eq: "norm_down k (2 * x) (e - 1) = (m, e')"
      using Suc.prems(3) by simp
    have "0 < 2 * x" "2 * x < 2 ^ 53" using Suc.prems(1) True by simp_all
    note ih = Suc.IH [OF this eq]
    have "2 * x * 2 powi (e - 1) = x * 2 powi e"
      by (simp add: power_int_diff)
    then show ?thesis using ih Suc.prems(1) by auto
  next
    case False
    then show ?thesis using Suc.prems by simp
  qed
qed

lemma normalise_spec:
  assumes "0 < x" and "normalise x = (m, e)"
  shows "m * 2 powi e = x \<and> 0 < m \<and> m < 2 ^ 53 \<and> - 1074 \<le> e \<and> (2 ^ 52 \<le> m \<or> e = - 1074)"
proof -
  obtain x1 e1 where up: "norm_up x 0 = (x1, e1)" by (cases "norm_up x 0")
  with assms(2) have down: "norm_down 1074 x1 e1 = (m, e)"
    by (simp add: normalise_def)
  note u = norm_up_spec [OF assms(1) up]
  from u have "0 < x1" "x1 < 2 ^ 53" by simp_all
  note d = norm_down_spec [OF this down]
  have "2 ^ 52 \<le> m \<or> e = - 1074"
  proof (cases "2 ^ 53 \<le> x")
    case True
    then have "2 ^ 52 \<le> x1" using u by simp
    then show ?thesis using d by simp
  next
    case False
    then have "e1 = 0" using u by simp
    then show ?thesis using d by auto
  qed
  moreover have "0 < m" using d \<open>0 < x1\<close> by simp
  ultimately show ?thesis using u d by simp
qed

lemma representableI: "\<bar>m\<bar> \<le> 2 ^ 53 \<Longrightarrow> - 1074 \<le> e \<Longrightarrow> x = of_int m * 2 powi e \<Longrightarrow> representable x"
  unfolding representable_def by blast

lemma powi_split: "e \<le> t \<Longrightarrow> (2::rat) powi t = 2 ^ nat (t - e) * 2 powi e"
proof -
  assume "e \<le> t"
  define n where "n = nat (t - e)"
  have t: "t = int n + e" using \<open>e \<le> t\<close> by (simp add: n_def)
  have "(2::rat) powi (int n + e) = 2 powi int n * 2 powi e" by (rule power_int_add) simp
  then have "(2::rat) powi t = 2 ^ n * 2 powi e" by (simp only: t power_int_of_nat)
  then show ?thesis by (simp only: n_def)
qed

lemma powi_double_le: "t < e \<Longrightarrow> 2 * (2::rat) powi t \<le> 2 powi e"
proof -
  assume "t < e"
  then have "t + 1 \<le> e" by simp
  then have "(2::rat) powi (t + 1) \<le> 2 powi e" by (intro power_int_increasing) simp_all
  then show ?thesis by (simp add: power_int_add)
qed

text \<open>The rounded value of a normalised positive number, against a representable bound.\<close>

lemma round_even_of_int: "round_even (of_int k) = k"
  by (simp add: round_even_def)

lemma rounded_le:
  assumes m: "0 < m" "- 1074 \<le> e" "2 ^ 52 \<le> m \<or> e = - 1074"
    and b: "\<bar>k\<bar> \<le> 2 ^ 53" "- 1074 \<le> t" "m * 2 powi e \<le> of_int k * 2 powi t"
  shows "of_int (round_even m) * (2::rat) powi e \<le> of_int k * 2 powi t"
proof (cases "e \<le> t")
  case True
  have p: "(0::rat) < 2 powi e" by simp
  have eq: "of_int k * (2::rat) powi t = of_int (k * 2 ^ nat (t - e)) * 2 powi e"
    by (simp add: powi_split [OF True])
  from eq b(3) have "m \<le> of_int (k * 2 ^ nat (t - e))"
    using p by (metis mult_le_cancel_right_pos)
  then have "round_even m \<le> k * 2 ^ nat (t - e)" by (rule round_even_le)
  then have "(of_int (round_even m) :: rat) \<le> of_int (k * 2 ^ nat (t - e))"
    by (simp only: of_int_le_iff)
  then have "of_int (round_even m) * (2::rat) powi e \<le> of_int (k * 2 ^ nat (t - e)) * 2 powi e"
    using p by (intro mult_right_mono) simp_all
  then show ?thesis by (simp only: eq)
next
  case False
  then have lt: "t < e" by simp
  then have big: "2 ^ 52 \<le> m" using m b(2) by auto
  define P :: rat where "P = 2 powi e"
  define Q :: rat where "Q = 2 powi t"
  have P: "0 < P" and Q: "0 < Q" and QP: "2 * Q \<le> P"
    using powi_double_le [OF lt] by (simp_all add: P_def Q_def)
  have "k \<le> 2 ^ 53" using b(1) by linarith
  then have "(of_int k :: rat) \<le> of_int (2 ^ 53)" by (simp only: of_int_le_iff)
  then have kk: "(of_int k :: rat) \<le> 2 ^ 53" by simp
  have "of_int k * Q \<le> 2 ^ 53 * Q" using kk Q by (intro mult_right_mono) simp_all
  also have "\<dots> = 2 ^ 52 * (2 * Q)" by simp
  also have "\<dots> \<le> 2 ^ 52 * P" using QP by (intro mult_left_mono) simp_all
  finally have ub: "of_int k * Q \<le> 2 ^ 52 * P" .
  have lb: "2 ^ 52 * P \<le> m * P" using big P by (intro mult_right_mono) simp_all
  have b3: "m * P \<le> of_int k * Q" using b(3) by (simp add: P_def Q_def)
  from ub lb b3 have mP: "m * P = 2 ^ 52 * P" and kQ: "of_int k * Q = 2 ^ 52 * P" by linarith+
  from mP have "m = of_int (2 ^ 52)" using P by simp
  then have "round_even m = 2 ^ 52" by (simp only: round_even_of_int)
  then have "of_int (round_even m) * P = 2 ^ 52 * P" by simp
  then show ?thesis using kQ by (simp add: P_def Q_def)
qed

lemma rounded_ge:
  assumes m: "0 < m" "- 1074 \<le> e" "2 ^ 52 \<le> m \<or> e = - 1074"
    and a: "\<bar>k\<bar> \<le> 2 ^ 53" "- 1074 \<le> t" "of_int k * 2 powi t \<le> m * 2 powi e"
  shows "of_int k * (2::rat) powi t \<le> of_int (round_even m) * 2 powi e"
proof (cases "e \<le> t")
  case True
  have p: "(0::rat) < 2 powi e" by simp
  have eq: "of_int k * (2::rat) powi t = of_int (k * 2 ^ nat (t - e)) * 2 powi e"
    by (simp add: powi_split [OF True])
  from eq a(3) have "of_int (k * 2 ^ nat (t - e)) \<le> m"
    using p by (metis mult_le_cancel_right_pos)
  then have "k * 2 ^ nat (t - e) \<le> round_even m" by (rule round_even_ge)
  then have "(of_int (k * 2 ^ nat (t - e)) :: rat) \<le> of_int (round_even m)"
    by (simp only: of_int_le_iff)
  then have "of_int (k * 2 ^ nat (t - e)) * (2::rat) powi e \<le> of_int (round_even m) * 2 powi e"
    using p by (intro mult_right_mono) simp_all
  then show ?thesis by (simp only: eq)
next
  case False
  then have lt: "t < e" by simp
  then have big: "of_int (2 ^ 52) \<le> m" using m a(2) by auto
  define P :: rat where "P = 2 powi e"
  define Q :: rat where "Q = 2 powi t"
  have P: "0 < P" and Q: "0 < Q" and QP: "2 * Q \<le> P"
    using powi_double_le [OF lt] by (simp_all add: P_def Q_def)
  have "k \<le> 2 ^ 53" using a(1) by linarith
  then have "(of_int k :: rat) \<le> of_int (2 ^ 53)" by (simp only: of_int_le_iff)
  then have kk: "(of_int k :: rat) \<le> 2 ^ 53" by simp
  have "of_int k * Q \<le> 2 ^ 53 * Q" using kk Q by (intro mult_right_mono) simp_all
  also have "\<dots> = 2 ^ 52 * (2 * Q)" by simp
  also have "\<dots> \<le> 2 ^ 52 * P" using QP by (intro mult_left_mono) simp_all
  finally have ub: "of_int k * Q \<le> 2 ^ 52 * P" .
  have "2 ^ 52 \<le> round_even m" using big by (rule round_even_ge)
  then have "(of_int (2 ^ 52) :: rat) \<le> of_int (round_even m)" by (simp only: of_int_le_iff)
  then have "(2 ^ 52 :: rat) \<le> of_int (round_even m)" by simp
  then have "2 ^ 52 * P \<le> of_int (round_even m) * P" using P by (intro mult_right_mono) simp_all
  with ub have "of_int k * Q \<le> of_int (round_even m) * P" by linarith
  then show ?thesis by (simp add: P_def Q_def)
qed

lemma float64_pos:
  assumes "0 < x" and "normalise x = (m, e)"
  shows "float64 x = of_int (round_even m) * 2 powi e"
  using assms by (simp add: float64_def)

lemma float64_upper:
  assumes "0 \<le> x" "x \<le> b" "representable b"
  shows "float64 x \<le> b"
proof (cases "x = 0")
  case True
  then show ?thesis using assms by (simp add: float64_def)
next
  case False
  then have pos: "0 < x" using assms(1) by simp
  obtain m e where n: "normalise x = (m, e)" by (cases "normalise x")
  note s = normalise_spec [OF pos n]
  obtain k t where b: "\<bar>k\<bar> \<le> 2 ^ 53" "- 1074 \<le> t" "b = of_int k * 2 powi t"
    using assms(3) unfolding representable_def by blast
  have "m * 2 powi e \<le> of_int k * 2 powi t" using s assms(2) b(3) by simp
  then have "of_int (round_even m) * (2::rat) powi e \<le> of_int k * 2 powi t"
    using s b(1,2) by (intro rounded_le) simp_all
  then show ?thesis using float64_pos [OF pos n] b(3) by simp
qed

lemma float64_lower:
  assumes "0 \<le> x" "a \<le> x" "representable a"
  shows "a \<le> float64 x"
proof (cases "x = 0")
  case True
  then show ?thesis using assms by (simp add: float64_def)
next
  case False
  then have pos: "0 < x" using assms(1) by simp
  obtain m e where n: "normalise x = (m, e)" by (cases "normalise x")
  note s = normalise_spec [OF pos n]
  obtain k t where a: "\<bar>k\<bar> \<le> 2 ^ 53" "- 1074 \<le> t" "a = of_int k * 2 powi t"
    using assms(3) unfolding representable_def by blast
  have "of_int k * 2 powi t \<le> m * 2 powi e" using s assms(2) a(3) by simp
  then have "of_int k * (2::rat) powi t \<le> of_int (round_even m) * 2 powi e"
    using s a(1,2) by (intro rounded_ge) simp_all
  then show ?thesis using float64_pos [OF pos n] a(3) by simp
qed

lemma float64_exact: "0 \<le> x \<Longrightarrow> representable x \<Longrightarrow> float64 x = x"
  using float64_upper [of x x] float64_lower [of x x] by simp

lemma float64_nonneg: "0 \<le> x \<Longrightarrow> 0 \<le> float64 x"
  by (rule float64_lower) (auto intro: representableI [of 0 0])

lemma representable_float64:
  assumes "1 \<le> x"
  shows "\<exists>k t. 0 \<le> k \<and> k \<le> 2 ^ 53 \<and> - 52 \<le> t \<and> float64 x = of_int k * 2 powi t"
proof -
  have pos: "0 < x" using assms by simp
  obtain m e where n: "normalise x = (m, e)" by (cases "normalise x")
  note s = normalise_spec [OF pos n]
  have "of_int 0 \<le> m" using s by simp
  then have k0: "0 \<le> round_even m" by (rule round_even_ge)
  have "m \<le> of_int (2 ^ 53)" using s by simp
  then have k1: "round_even m \<le> 2 ^ 53" by (rule round_even_le)
  have "- 52 \<le> e"
  proof (rule ccontr)
    assume "\<not> - 52 \<le> e"
    then have "e + 53 \<le> 0" by simp
    then have "(2::rat) powi (e + 53) \<le> 2 powi 0" by (intro power_int_increasing) simp_all
    then have le: "2 ^ 53 * (2::rat) powi e \<le> 1" by (simp add: power_int_add mult.commute)
    have "m * 2 powi e < 2 ^ 53 * 2 powi e"
      using s by (intro mult_strict_right_mono) simp_all
    with le s assms show False by linarith
  qed
  then show ?thesis using k0 k1 float64_pos [OF pos n] by blast
qed

lemma representable_dyadic:
  assumes "k \<le> 2 ^ 53" "j \<le> 1074"
  shows "representable (of_nat k / 2 ^ j)"
proof (rule representableI [of "int k" "- int j"])
  show "\<bar>int k\<bar> \<le> 2 ^ 53" using assms(1) by simp
  show "- 1074 \<le> - int j" using assms(2) by simp
  show "(of_nat k :: rat) / 2 ^ j = of_int (int k) * 2 powi (- int j)"
    by (simp add: power_int_minus field_simps)
qed

lemma representable_of_nat: "k \<le> 2 ^ 53 \<Longrightarrow> representable (of_nat k)"
  using representable_dyadic [of k 0] by simp

lemma float64_of_nat: "k \<le> 2 ^ 53 \<Longrightarrow> float64 (of_nat k) = of_nat k"
  by (rule float64_exact) (simp_all add: representable_of_nat)

lemma float64_between:
  assumes "of_nat lo / 2 ^ i \<le> x" "x \<le> of_nat hi / 2 ^ j"
    and "lo \<le> 2 ^ 53" "hi \<le> 2 ^ 53" "i \<le> 1074" "j \<le> 1074"
  shows "of_nat lo / 2 ^ i \<le> float64 x \<and> float64 x \<le> of_nat hi / 2 ^ j"
proof -
  have "(0::rat) \<le> of_nat lo / 2 ^ i" by simp
  with assms(1) have x: "0 \<le> x" by linarith
  show ?thesis
    using float64_lower [OF x assms(1)] float64_upper [OF x assms(2)] assms(3-6)
    by (simp add: representable_dyadic)
qed

lemma sint_nanoseconds:
  assumes "unat s \<le> 9223372036"
  shows "sint (s * 1000000000 :: 64 word) = int (unat s) * 1000000000"
proof -
  define k where "k = int (unat s)"
  have "int (unat s) \<le> int 9223372036" using assms by (simp only: of_nat_le_iff)
  then have k: "0 \<le> k" "k \<le> 9223372036" by (simp_all add: k_def)
  have "s * 1000000000 = word_of_int (k * 1000000000)"
    by (simp add: k_def)
  then have "sint (s * 1000000000) = signed_take_bit 63 (k * 1000000000)"
    by (simp only: sint_sbintrunc') simp
  also have "\<dots> = k * 1000000000"
  proof (rule signed_take_bit_int_eq_self)
    show "- (2 ^ 63) \<le> k * 1000000000" using k by simp
    have "k * 1000000000 \<le> 9223372036 * 1000000000" using k by simp
    then show "k * 1000000000 < 2 ^ 63" by simp
  qed
  finally show ?thesis by (simp only: k_def)
qed

subsection \<open>\<^verbatim>\<open>formatUptime\<close>\<close>

lemma sdiv_nonneg: "0 \<le> k \<Longrightarrow> 0 < l \<Longrightarrow> (k::int) sdiv l = k div l"
  by (cases "k = 0") (simp_all add: signed_divide_int_def)

lemma smod_nonneg: "0 \<le> k \<Longrightarrow> 0 < l \<Longrightarrow> (k::int) smod l = k mod l"
  by (cases "k = 0") (simp_all add: signed_modulo_int_def)

lemma trunc_between: "of_int z \<le> x \<Longrightarrow> x < of_int z + 1 \<Longrightarrow> 0 \<le> z \<Longrightarrow> trunc x = z"
proof -
  assume a: "of_int z \<le> x" "x < of_int z + 1" "0 \<le> z"
  then have "(0::rat) \<le> of_int z" by simp
  with a have "0 \<le> x" by linarith
  moreover have "\<lfloor>x\<rfloor> = z" using a by (intro floor_unique) simp_all
  ultimately show ?thesis by (simp add: trunc_def)
qed

text \<open>A duration of whole seconds, split at a unit of \<open>u\<close> seconds.\<close>

lemma split_seconds:
  fixes n u :: nat
  assumes "0 < u"
  shows "(int n * 1000000000) sdiv (int u * 1000000000) = int (n div u)"
    and "(int n * 1000000000) smod (int u * 1000000000) = int (n mod u) * 1000000000"
proof -
  have p: "0 \<le> int n * 1000000000" "0 < int u * 1000000000" using assms by simp_all
  have "(int n * 1000000000) div (int u * 1000000000) = int n div int u"
    by simp
  then show "(int n * 1000000000) sdiv (int u * 1000000000) = int (n div u)"
    by (simp only: sdiv_nonneg [OF p] zdiv_int)
  have "(int n * 1000000000) mod (int u * 1000000000) = (int n mod int u) * 1000000000"
    by simp
  then show "(int n * 1000000000) smod (int u * 1000000000) = int (n mod u) * 1000000000"
    by (simp only: smod_nonneg [OF p] zmod_int)
qed

text \<open>
  The float of \<open>q + r / u\<close> as \<^verbatim>\<open>Hours\<close> and \<^verbatim>\<open>Minutes\<close> compute it, for a
  remainder \<open>r < u\<close>: it stays in \<open>[q, q + 1 - 2\<^sup>-\<^sup>1\<^sup>2]\<close>.
\<close>

lemma unit_float_bounds:
  fixes q r u :: nat
  assumes r: "r < u" and u: "u \<le> 4096" and q: "q < 2 ^ 40"
  shows "of_nat q \<le> float64 (float64 (of_nat q) + float64 (float64 (of_nat (r * 1000000000)) / (of_nat u * 1000000000)))"
    and "float64 (float64 (of_nat q) + float64 (float64 (of_nat (r * 1000000000)) / (of_nat u * 1000000000)))
           \<le> of_nat (q * 4096 + 4095) / 2 ^ 12"
proof -
  have "r * 1000000000 \<le> 4096 * 1000000000" using r u by simp
  then have "r * 1000000000 \<le> 2 ^ 53" by simp
  then have f1: "float64 (of_nat (r * 1000000000)) = of_nat (r * 1000000000)"
    by (rule float64_of_nat)
  define x :: rat where "x = of_nat (r * 1000000000) / (of_nat u * 1000000000)"
  have x: "x = of_nat r / of_nat u" by (simp add: x_def)
  have up: "0 < (of_nat u :: rat)" using r by simp
  have "of_nat r * 4096 \<le> (4095 * of_nat u :: rat)"
  proof -
    have "r * 4096 \<le> 4095 * u" using r u by simp
    then have "(of_nat (r * 4096) :: rat) \<le> of_nat (4095 * u)" by (simp only: of_nat_le_iff)
    then show ?thesis by simp
  qed
  then have xb: "x \<le> of_nat 4095 / 2 ^ 12" using up by (simp add: x field_simps)
  have x0: "of_nat 0 / 2 ^ 0 \<le> x" by (simp add: x)
  have f2: "of_nat 0 / 2 ^ 0 \<le> float64 x \<and> float64 x \<le> of_nat 4095 / 2 ^ 12"
    using x0 xb by (rule float64_between) simp_all
  have "q \<le> 2 ^ 53" using q by simp
  then have f3: "float64 (of_nat q) = of_nat q" by (rule float64_of_nat)
  define y :: rat where "y = of_nat q + float64 x"
  have yl: "of_nat q / 2 ^ 0 \<le> y" using f2 by (simp add: y_def)
  have yu: "y \<le> of_nat (q * 4096 + 4095) / 2 ^ 12" using f2 by (simp add: y_def field_simps)
  have "q * 4096 + 4095 < 2 ^ 40 * 4096 + 4096" using q by simp
  then have qq: "q * 4096 + 4095 \<le> 2 ^ 53" by simp
  have "of_nat q / 2 ^ 0 \<le> float64 y \<and> float64 y \<le> of_nat (q * 4096 + 4095) / 2 ^ 12"
    using yl yu \<open>q \<le> 2 ^ 53\<close> qq by (rule float64_between) simp_all
  then show "of_nat q \<le> float64 (float64 (of_nat q) + float64 (float64 (of_nat (r * 1000000000)) / (of_nat u * 1000000000)))"
    and "float64 (float64 (of_nat q) + float64 (float64 (of_nat (r * 1000000000)) / (of_nat u * 1000000000)))
           \<le> of_nat (q * 4096 + 4095) / 2 ^ 12"
    by (simp_all only: f1 f3 x_def [symmetric] y_def [symmetric] div_by_1 power_0)
qed

lemma Hours_bounds:
  assumes "n \<le> 9223372036"
  shows "of_nat (n div 3600) \<le> Hours (int n * 1000000000)"
    and "Hours (int n * 1000000000) \<le> of_nat (n div 3600 * 4096 + 4095) / 2 ^ 12"
proof -
  have d: "(int n * 1000000000) sdiv 3600000000000 = int (n div 3600)"
    "(int n * 1000000000) smod 3600000000000 = int (n mod 3600) * 1000000000"
    using split_seconds [of 3600 n] by simp_all
  have H: "Hours (int n * 1000000000) =
      float64 (float64 (of_nat (n div 3600)) +
        float64 (float64 (of_nat (n mod 3600 * 1000000000)) / (of_nat 3600 * 1000000000)))"
    by (simp add: Hours_def Hour_def Minute_def Second_def d)
  have q: "n div 3600 < 2 ^ 40" using assms by simp
  show "of_nat (n div 3600) \<le> Hours (int n * 1000000000)"
    unfolding H by (rule unit_float_bounds(1)) (use q in simp_all)
  show "Hours (int n * 1000000000) \<le> of_nat (n div 3600 * 4096 + 4095) / 2 ^ 12"
    unfolding H by (rule unit_float_bounds(2)) (use q in simp_all)
qed

lemma Minutes_bounds:
  assumes "n \<le> 9223372036"
  shows "of_nat (n div 60) \<le> Minutes (int n * 1000000000)"
    and "Minutes (int n * 1000000000) \<le> of_nat (n div 60 * 4096 + 4095) / 2 ^ 12"
proof -
  have d: "(int n * 1000000000) sdiv 60000000000 = int (n div 60)"
    "(int n * 1000000000) smod 60000000000 = int (n mod 60) * 1000000000"
    using split_seconds [of 60 n] by simp_all
  have M: "Minutes (int n * 1000000000) =
      float64 (float64 (of_nat (n div 60)) +
        float64 (float64 (of_nat (n mod 60 * 1000000000)) / (of_nat 60 * 1000000000)))"
    by (simp add: Minutes_def Minute_def Second_def d)
  have q: "n div 60 < 2 ^ 40" using assms by simp
  show "of_nat (n div 60) \<le> Minutes (int n * 1000000000)"
    unfolding M by (rule unit_float_bounds(1)) (use q in simp_all)
  show "Minutes (int n * 1000000000) \<le> of_nat (n div 60 * 4096 + 4095) / 2 ^ 12"
    unfolding M by (rule unit_float_bounds(2)) (use q in simp_all)
qed

lemma trunc_unit:
  fixes q :: nat
  assumes "of_nat q \<le> x" "x \<le> of_nat (q * 4096 + 4095) / 2 ^ 12"
  shows "trunc x = int q"
proof (rule trunc_between)
  show "of_int (int q) \<le> x" using assms(1) by simp
  have "(of_nat (q * 4096 + 4095) :: rat) / 2 ^ 12 < of_nat q + 1" by (simp add: field_simps)
  with assms(2) show "x < of_int (int q) + 1" by simp
  show "0 \<le> int q" by simp
qed

lemma days_of_hours:
  fixes h :: nat
  assumes "of_nat h \<le> x" "x \<le> of_nat (h * 4096 + 4095) / 2 ^ 12" "h < 2 ^ 30"
  shows "trunc (float64 (x / 24)) = int (h div 24)"
proof -
  define D where "D = h div 24"
  have h: "24 * D \<le> h" "h \<le> 24 * D + 23" by (simp_all add: D_def)
  have lo: "of_nat D / 2 ^ 0 \<le> x / 24"
  proof -
    have "(of_nat (24 * D) :: rat) \<le> of_nat h" using h(1) by (simp only: of_nat_le_iff)
    with assms(1) show ?thesis by simp
  qed
  have hi: "x / 24 \<le> of_nat (D * 131072 + 131071) / 2 ^ 17"
  proof -
    have "(of_nat h :: rat) \<le> of_nat (24 * D + 23)" using h(2) by (simp only: of_nat_le_iff)
    with assms(2) have "x \<le> (of_nat (24 * D + 23) * 4096 + 4095) / 2 ^ 12"
      by (simp add: field_simps)
    then show ?thesis by (simp add: field_simps)
  qed
  have "D < 2 ^ 30" using assms(3) by (simp add: D_def)
  then have "D * 131072 + 131071 < 2 ^ 30 * 131072 + 131072" by simp
  then have b: "D \<le> 2 ^ 53" "D * 131072 + 131071 \<le> 2 ^ 53" using \<open>D < 2 ^ 30\<close> by simp_all
  have "of_nat D / 2 ^ 0 \<le> float64 (x / 24) \<and> float64 (x / 24) \<le> of_nat (D * 131072 + 131071) / 2 ^ 17"
    using lo hi b by (rule float64_between) simp_all
  then have "of_int (int D) \<le> float64 (x / 24)" "float64 (x / 24) < of_int (int D) + 1"
    by (simp_all add: field_simps)
  then have "trunc (float64 (x / 24)) = int D" by (rule trunc_between) simp
  then show ?thesis by (simp only: D_def)
qed

lemma fmt_d_int: "fmt_d (int k) = decimal k"
  by (simp add: fmt_d_def)

text \<open>
  The three numbers of \<^verbatim>\<open>formatUptime\<close> for an uptime whose nanoseconds fit 64 signed
  bits: the floats stay close enough to the exact quotients that truncating them gives
  the integer quotients.
\<close>

lemma uptime_parts:
  fixes s :: "64 word"
  assumes "unat s \<le> 9223372036"
  shows "trunc (float64 (Hours (sint (s * 1000000000)) / 24)) = int (unat s div 86400)"
    and "trunc (Hours (sint (s * 1000000000))) smod 24 = int (unat s div 3600 mod 24)"
    and "trunc (Minutes (sint (s * 1000000000))) smod 60 = int (unat s div 60 mod 60)"
proof -
  define n where "n = unat s"
  have n: "n \<le> 9223372036" using assms by (simp add: n_def)
  have d: "sint (s * 1000000000) = int n * 1000000000"
    unfolding n_def using assms by (rule sint_nanoseconds)
  have hours: "trunc (Hours (int n * 1000000000)) = int (n div 3600)"
    using Hours_bounds [OF n] by (rule trunc_unit)
  have "n div 3600 < 2 ^ 30" using n by simp
  then have "trunc (float64 (Hours (int n * 1000000000) / 24)) = int (n div 3600 div 24)"
    by (rule days_of_hours [OF Hours_bounds [OF n]])
  then have days: "trunc (float64 (Hours (int n * 1000000000) / 24)) = int (n div 86400)"
    by (simp add: div_mult2_eq [symmetric])
  have minutes: "trunc (Minutes (int n * 1000000000)) = int (n div 60)"
    using Minutes_bounds [OF n] by (rule trunc_unit)
  have m24: "int (n div 3600) smod 24 = int (n div 3600 mod 24)"
    by (simp add: smod_nonneg zmod_int)
  have m60: "int (n div 60) smod 60 = int (n div 60 mod 60)"
    by (simp add: smod_nonneg zmod_int)
  show "trunc (float64 (Hours (sint (s * 1000000000)) / 24)) = int (unat s div 86400)"
    unfolding d days by (simp only: n_def)
  show "trunc (Hours (sint (s * 1000000000))) smod 24 = int (unat s div 3600 mod 24)"
    unfolding d hours m24 by (simp only: n_def)
  show "trunc (Minutes (sint (s * 1000000000))) smod 60 = int (unat s div 60 mod 60)"
    unfolding d minutes m60 by (simp only: n_def)
qed

lemma decimal_digit: "n < 10 \<Longrightarrow> decimal n = [digit n]"
  by (simp add: decimal.simps)

lemma floor_rat_numeral: "\<lfloor>(numeral a :: rat) / numeral b\<rfloor> = numeral a div numeral b"
  by (metis floor_divide_of_int_eq of_int_numeral)

lemmas eval_simps =
  decimal.simps digit_def round_even_def Let_def floor_rat_numeral fmt_f_def fmt_d_def

text \<open>
  C2, as amended. For every uptime of at most 9223372036 seconds (the seconds whose
  nanoseconds fit the \<^verbatim>\<open>int64\<close> of a \<^verbatim>\<open>time.Duration\<close>), \<^verbatim>\<open>formatUptime\<close> returns
  \<^verbatim>\<open>{d}d {h}h {m}m\<close> with \<open>d = s div 86400\<close>, \<open>h = (s div 3600) mod 24\<close> and
  \<open>m = (s div 60) mod 60\<close>: the float arithmetic of \<^verbatim>\<open>Hours\<close> and \<^verbatim>\<open>Minutes\<close> loses
  nothing there, and the seconds are dropped without rounding.
\<close>

theorem formatUptime_correct:
  assumes "unat s \<le> 9223372036"
  shows "formatUptime s =
     decimal (unat s div 86400) @ ''d '' @ decimal (unat s div 3600 mod 24) @ ''h '' @
     decimal (unat s div 60 mod 60) @ ''m'' \<and>
     formatUptime s = formatUptime_claimed (unat s) \<and>
     unat s div 3600 mod 24 < 24 \<and> unat s div 60 mod 60 < 60"
proof -
  have "formatUptime s =
     fmt_d (int (unat s div 86400)) @ ''d '' @ fmt_d (int (unat s div 3600 mod 24)) @ ''h '' @
     fmt_d (int (unat s div 60 mod 60)) @ ''m''"
    unfolding formatUptime_def Let_def uptime_parts [OF assms] ..
  then have "formatUptime s =
     decimal (unat s div 86400) @ ''d '' @ decimal (unat s div 3600 mod 24) @ ''h '' @
     decimal (unat s div 60 mod 60) @ ''m''"
    by (simp only: fmt_d_int)
  then show ?thesis by (simp add: formatUptime_claimed_def)
qed

theorem formatUptime_witness:
  "unat (90061 :: 64 word) \<le> 9223372036 \<and> formatUptime 90061 = ''1d 1h 1m'' \<and>
   formatUptime 0 = ''0d 0h 0m''"
  using formatUptime_correct [of 90061] formatUptime_correct [of 0]
  by (simp add: formatUptime_claimed_def decimal_digit digit_def)

text \<open>
  C2 as stated fails: at \<open>2\<^sup>5\<^sup>5\<close> seconds the nanoseconds wrap around to 0 in 64 bits,
  and the text is that of an uptime of 0, not of 416999965497 days.
\<close>

theorem formatUptime_overflow:
  "formatUptime 36028797018963968 = ''0d 0h 0m'' \<and>
   formatUptime_claimed 36028797018963968 = ''416999965497d 6h 26m''"
  by (simp add: formatUptime_def Hours_def Minutes_def Hour_def Minute_def Second_def
      float64_def trunc_def fmt_d_def formatUptime_claimed_def decimal.simps digit_def)

subsection \<open>\<^verbatim>\<open>formatBytes\<close>\<close>

lemma divisions_le: "n < 1024 ^ Suc j \<Longrightarrow> divisions n \<le> j"
proof (induction j arbitrary: n)
  case 0
  then show ?case by (simp add: divisions.simps [of n])
next
  case (Suc j)
  show ?case
  proof (cases "n < 1024")
    case True
    then show ?thesis by (simp add: divisions.simps [of n])
  next
    case False
    have "n div 1024 < 1024 ^ Suc j" using Suc.prems by (simp add: less_mult_imp_div_less)
    then have "divisions (n div 1024) \<le> j" by (rule Suc.IH)
    then show ?thesis using False by (simp add: divisions.simps [of n])
  qed
qed

lemma formatBytes_loop_eq:
  "formatBytes_loop n dv e = (dv * 1024 ^ divisions (unat n), e + int (divisions (unat n)))"
proof (induction n dv e rule: formatBytes_loop.induct)
  case (1 n dv e)
  show ?case
  proof (cases "1024 \<le> n")
    case True
    then have ge: "\<not> unat n < 1024" by (simp add: word_le_nat_alt)
    have u: "unat (n div 1024) = unat n div 1024" by (simp add: unat_div)
    show ?thesis
      using True "1.IH" [OF True] ge
      by (simp add: formatBytes_loop.simps [of n dv e] divisions.simps [of "unat n"] u)
  next
    case False
    then have "unat n < 1024" by (simp add: word_le_nat_alt)
    then show ?thesis using False
      by (simp add: formatBytes_loop.simps [of n dv e] divisions.simps [of "unat n"])
  qed
qed

lemma power_1024: "(1024 :: 'a :: comm_semiring_1) ^ k = 2 ^ (10 * k)"
  by (simp add: power_mult)

lemma unat_1024_power: "k \<le> 6 \<Longrightarrow> unat ((1024 :: 64 word) ^ k) = 1024 ^ k"
proof -
  assume k: "k \<le> 6"
  have "(1024 :: nat) ^ k \<le> 1024 ^ 6" using k by (intro power_increasing) simp_all
  then have lt: "(1024 :: nat) ^ k < 2 ^ 64" by simp
  have "(1024 :: 64 word) ^ k = of_nat (1024 ^ k)" by simp
  then have "unat ((1024 :: 64 word) ^ k) = 1024 ^ k mod 2 ^ 64"
    by (simp only: unat_of_nat) simp
  then show ?thesis using lt by simp
qed

lemma float64_power2: "j \<le> 1000 \<Longrightarrow> float64 (2 ^ j) = 2 ^ j"
proof (rule float64_exact)
  show "(0::rat) \<le> 2 ^ j" by simp
  show "representable (2 ^ j)" by (rule representableI [of 1 "int j"]) simp_all
qed

lemma float64_scaled:
  assumes "1 \<le> x" "j \<le> 1000"
  shows "float64 (float64 x / 2 ^ j) = float64 x / 2 ^ j"
proof -
  obtain k t where kt: "0 \<le> k" "k \<le> 2 ^ 53" "- 52 \<le> t" "float64 x = of_int k * 2 powi t"
    using representable_float64 [OF assms(1)] by blast
  have eq: "float64 x / 2 ^ j = of_int k * 2 powi (t - int j)"
    by (simp add: kt(4) power_int_diff)
  show ?thesis
  proof (rule float64_exact)
    show "0 \<le> float64 x / 2 ^ j" using kt(1) by (simp add: kt(4))
    show "representable (float64 x / 2 ^ j)"
      using kt assms(2) eq by (intro representableI [of k "t - int j"]) simp_all
  qed
qed

lemma formatBytes_large:
  assumes n: "n = unat b" and ge: "1024 \<le> n"
  shows "formatBytes b = Inr (humanize (float64 (of_nat n)) (divisions n))"
proof -
  have nb: "\<not> b < 1024" using ge by (simp add: word_less_nat_alt n)
  define k where "k = divisions (n div 1024)"
  have dk: "divisions n = Suc k"
    using ge by (simp add: divisions.simps [of n] k_def)
  have "n < 2 ^ 64" using unsigned_less [of b] by (simp add: n)
  then have "n < 1024 ^ Suc 6" by simp
  then have "divisions n \<le> 6" by (rule divisions_le)
  then have k5: "k \<le> 5" using dk by simp
  have u: "unat (b div 1024) = n div 1024" by (simp add: unat_div n)
  have loop: "formatBytes_loop (b div 1024) 1024 0 = (1024 ^ Suc k, int k)"
    by (simp add: formatBytes_loop_eq u k_def)
  have ud: "unat ((1024 :: 64 word) ^ Suc k) = 1024 ^ Suc k"
    using k5 by (intro unat_1024_power) simp
  then have nz: "(1024 :: 64 word) ^ Suc k \<noteq> 0"
    by (metis power_not_zero unat_0 zero_neq_numeral)
  have idx: "index_byte ''KMGTPE'' (int k) = Inr (''KMGTPE'' ! k)"
    using k5 by (simp add: index_byte_def)
  have p2: "(of_nat (1024 ^ Suc k) :: rat) = 2 ^ (10 * Suc k)"
    by (simp only: of_nat_power of_nat_numeral power_1024)
  have fd: "float64 (of_nat (1024 ^ Suc k)) = 2 ^ (10 * Suc k)"
    unfolding p2 using k5 by (intro float64_power2) simp
  have "(1::rat) \<le> of_nat n" using ge by simp
  then have fq: "float64 (float64 (of_nat n) / 2 ^ (10 * Suc k)) =
      float64 (of_nat n) / 2 ^ (10 * Suc k)"
    using k5 by (intro float64_scaled) simp_all
  have "formatBytes b =
      (case formatBytes_loop (b div 1024) 1024 0 of
         (dv, expo) \<Rightarrow>
           (case index_byte ''KMGTPE'' expo of
              Inl p \<Rightarrow> Inl p
            | Inr c \<Rightarrow>
                Inr ((if dv = 0 then ''+Inf''
                      else fmt_f 1 (float64 (float64 (of_nat n) / float64 (of_nat (unat dv)))))
                     @ '' '' @ [c] @ ''iB'')))"
    unfolding formatBytes_def n using nb by (simp only: if_False)
  also have "\<dots> = Inr (fmt_f 1 (float64 (of_nat n) / 2 ^ (10 * Suc k)) @ '' '' @ [''KMGTPE'' ! k] @ ''iB'')"
    unfolding loop prod.case idx sum.case ud fd fq using nz by (simp only: if_False)
  also have "\<dots> = Inr (humanize (float64 (of_nat n)) (divisions n))"
    unfolding humanize_def dk power_1024 [symmetric] by simp
  finally show ?thesis .
qed

lemma formatBytes_small:
  assumes "unat b < 1024"
  shows "formatBytes b = Inr (decimal (unat b) @ '' B'')"
proof -
  have "b < 1024" using assms by (simp add: word_less_nat_alt)
  then show ?thesis by (simp add: formatBytes_def)
qed

lemma formatBytes_exact:
  assumes "unat b \<le> 2 ^ 53"
  shows "formatBytes b = Inr (formatBytes_claimed (unat b))"
proof (cases "unat b < 1024")
  case True
  then show ?thesis by (simp add: formatBytes_small formatBytes_claimed_def)
next
  case False
  then have ge: "1024 \<le> unat b" by simp
  have "float64 (of_nat (unat b)) = of_nat (unat b)" using assms by (rule float64_of_nat)
  then show ?thesis
    using formatBytes_large [OF refl ge] False by (simp only: formatBytes_claimed_def if_False)
qed

lemma divisions_range:
  "1024 \<le> unat (b :: 64 word) \<Longrightarrow> 1 \<le> divisions (unat b) \<and> divisions (unat b) \<le> 6"
proof -
  assume ge: "1024 \<le> unat b"
  have "unat b < 2 ^ 64" using unsigned_less [of b] by simp
  then have "unat b < 1024 ^ Suc 6" by simp
  then have "divisions (unat b) \<le> 6" by (rule divisions_le)
  moreover have "1 \<le> divisions (unat b)" using ge by (simp add: divisions.simps [of "unat b"])
  ultimately show ?thesis by simp
qed

text \<open>
  C1, as amended. For every unsigned 64-bit \<open>bytes\<close>: below 1024 the text is the decimal
  rendering and \<^verbatim>\<open> B\<close>; otherwise, with \<open>k\<close> the number of repeated integer divisions
  by 1024 that bring the value below 1024 (from 1 to 6), it is \<open>v / 1024\<^sup>k\<close> with one
  decimal digit (nearest, ties to even), a blank, the \<open>k\<close>-th of K, M, G, T, P, E and
  \<^verbatim>\<open>iB\<close>, where \<open>v\<close> is \<open>bytes\<close> rounded to the nearest \<^verbatim>\<open>float64\<close>. Up to \<open>2\<^sup>5\<^sup>3\<close>
  that rounding changes nothing and the text is the one of the claim. No input makes
  the index into \<^verbatim>\<open>KMGTPE\<close> leave the string.
\<close>

theorem formatBytes_correct:
  "formatBytes b =
     Inr (if unat b < 1024 then decimal (unat b) @ '' B''
          else humanize (float64 (of_nat (unat b))) (divisions (unat b)))
   \<and> (unat b \<le> 2 ^ 53 \<longrightarrow> formatBytes b = Inr (formatBytes_claimed (unat b)))
   \<and> (1024 \<le> unat b \<longrightarrow> 1 \<le> divisions (unat b) \<and> divisions (unat b) \<le> 6)"
proof (intro conjI impI)
  show "formatBytes b =
     Inr (if unat b < 1024 then decimal (unat b) @ '' B''
          else humanize (float64 (of_nat (unat b))) (divisions (unat b)))"
  proof (cases "unat b < 1024")
    case True
    then show ?thesis by (simp add: formatBytes_small)
  next
    case False
    then have ge: "1024 \<le> unat b" by simp
    show ?thesis using formatBytes_large [OF refl ge] False by (simp only: if_False)
  qed
next
  assume "unat b \<le> 2 ^ 53"
  then show "formatBytes b = Inr (formatBytes_claimed (unat b))" by (rule formatBytes_exact)
next
  assume "1024 \<le> unat b"
  then show "1 \<le> divisions (unat b)" "divisions (unat b) \<le> 6"
    using divisions_range [of b] by simp_all
qed

lemma claimed_examples:
  "formatBytes_claimed 0 = ''0 B''" "formatBytes_claimed 1023 = ''1023 B''"
  "formatBytes_claimed 1024 = ''1.0 KiB''" "formatBytes_claimed 1536 = ''1.5 KiB''"
  "formatBytes_claimed 1048576 = ''1.0 MiB''"
  by (simp_all add: eval_simps divisions.simps humanize_def formatBytes_claimed_def)

theorem formatBytes_examples:
  "formatBytes 0 = Inr ''0 B'' \<and> formatBytes 1023 = Inr ''1023 B'' \<and>
   formatBytes 1024 = Inr ''1.0 KiB'' \<and> formatBytes 1536 = Inr ''1.5 KiB'' \<and>
   formatBytes 1048576 = Inr ''1.0 MiB'' \<and> unat (1536 :: 64 word) \<le> 2 ^ 53 \<and>
   1024 \<le> unat (1536 :: 64 word) \<and> divisions (unat (1536 :: 64 word)) = 1"
proof -
  have small: "unat (0 :: 64 word) \<le> 2 ^ 53" "unat (1023 :: 64 word) \<le> 2 ^ 53"
    "unat (1024 :: 64 word) \<le> 2 ^ 53" "unat (1536 :: 64 word) \<le> 2 ^ 53"
    "unat (1048576 :: 64 word) \<le> 2 ^ 53" by simp_all
  have u: "unat (0 :: 64 word) = 0" "unat (1023 :: 64 word) = 1023"
    "unat (1024 :: 64 word) = 1024" "unat (1536 :: 64 word) = 1536"
    "unat (1048576 :: 64 word) = 1048576" by simp_all
  note c = formatBytes_correct [THEN conjunct2, THEN conjunct1, rule_format]
  have "formatBytes 0 = Inr ''0 B''"
    using c [OF small(1)] by (simp only: u claimed_examples)
  moreover have "formatBytes 1023 = Inr ''1023 B''"
    using c [OF small(2)] by (simp only: u claimed_examples)
  moreover have "formatBytes 1024 = Inr ''1.0 KiB''"
    using c [OF small(3)] by (simp only: u claimed_examples)
  moreover have "formatBytes 1536 = Inr ''1.5 KiB''"
    using c [OF small(4)] by (simp only: u claimed_examples)
  moreover have "formatBytes 1048576 = Inr ''1.0 MiB''"
    using c [OF small(5)] by (simp only: u claimed_examples)
  moreover have "divisions (unat (1536 :: 64 word)) = 1"
    by (simp add: divisions.simps)
  ultimately show ?thesis using small(4) by simp
qed

lemma norm_down_stop: "2 ^ 52 \<le> x \<Longrightarrow> norm_down k x e = (x, e)"
  by (cases k) simp_all

lemma float64_tie: "float64 9063494250083123 = 9063494250083124"
  by (simp add: float64_def normalise_def norm_up.simps norm_down_stop round_even_def Let_def
      floor_rat_numeral)

text \<open>
  C1 as stated fails: 9063494250083123 bytes are less than 8.05 PiB, so one decimal
  digit of \<open>bytes / 1024\<^sup>5\<close> is \<^verbatim>\<open>8.0\<close>; the conversion to \<^verbatim>\<open>float64\<close> rounds the
  odd number up to 9063494250083124, which is more than 8.05 PiB, and the program
  prints \<^verbatim>\<open>8.1 PiB\<close>.
\<close>

theorem formatBytes_rounding:
  "formatBytes 9063494250083123 = Inr ''8.1 PiB'' \<and>
   formatBytes_claimed 9063494250083123 = ''8.0 PiB''"
proof -
  note ev = eval_simps divisions.simps humanize_def formatBytes_claimed_def
  have n: "unat (9063494250083123 :: 64 word) = 9063494250083123" by simp
  have "formatBytes 9063494250083123 = Inr ''8.1 PiB''"
    using formatBytes_large [of 9063494250083123 9063494250083123]
    by (simp add: ev float64_tie)
  moreover have "formatBytes_claimed 9063494250083123 = ''8.0 PiB''"
    by (simp add: ev)
  ultimately show ?thesis by simp
qed

subsection \<open>\<^verbatim>\<open>cleanGPUName\<close>\<close>

lemma first_match_Some: "first_match f xs = Some y \<Longrightarrow> \<exists>x\<in>set xs. f x = Some y"
  by (induction xs) (auto split: option.splits)

lemma first_match_None: "first_match f xs = None \<longleftrightarrow> (\<forall>x\<in>set xs. f x = None)"
  by (induction xs) (auto split: option.splits)

lemma length_takeWhile_prefix: "list_all p xs \<Longrightarrow> length xs \<le> length (takeWhile p (xs @ ys))"
  by (induction xs) auto

lemma take_takeWhile: "n \<le> length (takeWhile p s) \<Longrightarrow> list_all p (take n s)"
proof (induction s arbitrary: n)
  case Nil
  then show ?case by simp
next
  case (Cons c s)
  then show ?case by (cases n) (auto split: if_splits)
qed

lemma lens_conforms: "n \<in> set (lens a s) \<Longrightarrow> n \<le> length s \<and> conforms a (take n s)"
proof (cases a)
  case (Atom p q g)
  assume n: "n \<in> set (lens a s)"
  have tw: "length (takeWhile p s) \<le> length s" by (rule length_takeWhile_le)
  show ?thesis
  proof (cases q)
    case One
    with n Atom show ?thesis by (cases s) (auto simp: conforms_def split: if_splits)
  next
    case Plus
    with n Atom have "1 \<le> n" "n \<le> length (takeWhile p s)" by auto
    with tw Plus Atom show ?thesis by (auto simp: conforms_def take_takeWhile)
  next
    case Star
    with n Atom have "n \<le> length (takeWhile p s)" by auto
    with tw Star Atom show ?thesis by (auto simp: conforms_def take_takeWhile)
  qed
qed

lemma conforms_lens: "conforms a piece \<Longrightarrow> length piece \<in> set (lens a (piece @ rest))"
proof (cases a)
  case (Atom p q g)
  assume c: "conforms a piece"
  then have all: "list_all p piece" using Atom by (simp add: conforms_def)
  note le = length_takeWhile_prefix [OF all, of rest]
  show ?thesis
  proof (cases q)
    case One
    with c Atom show ?thesis by (cases piece) (auto simp: conforms_def)
  next
    case Plus
    with c Atom have "piece \<noteq> []" by (simp add: conforms_def)
    then have "1 \<le> length piece" by (cases piece) simp_all
    with le Plus Atom show ?thesis by auto
  next
    case Star
    with le Atom show ?thesis by auto
  qed
qed

text \<open>Every match splits the text into one piece per atom.\<close>

lemma match_here_sound:
  "match_here as s = Some caps \<Longrightarrow>
     \<exists>ps. s = concat ps \<and> list_all2 conforms as ps \<and>
          caps = map snd (filter (\<lambda>(a, p). captured a) (zip as ps))"
proof (induction as arbitrary: s caps)
  case Nil
  then show ?case by (simp split: if_splits)
next
  case (Cons a as)
  from Cons.prems obtain n where n: "n \<in> set (lens a s)"
    and f: "(case match_here as (drop n s) of None \<Rightarrow> None
            | Some cs \<Rightarrow> Some (if captured a then take n s # cs else cs)) = Some caps"
    by (auto dest: first_match_Some)
  from f obtain cs where cs: "match_here as (drop n s) = Some cs"
    and caps: "caps = (if captured a then take n s # cs else cs)"
    by (auto split: option.splits)
  from Cons.IH [OF cs] obtain ps where ps: "drop n s = concat ps" "list_all2 conforms as ps"
    "cs = map snd (filter (\<lambda>(a, p). captured a) (zip as ps))" by blast
  note c = lens_conforms [OF n]
  have "s = concat (take n s # ps)" using ps(1) by (simp flip: ps(1))
  moreover have "list_all2 conforms (a # as) (take n s # ps)" using c ps(2) by simp
  moreover have "caps = map snd (filter (\<lambda>(a, p). captured a) (zip (a # as) (take n s # ps)))"
    using caps ps(3) by simp
  ultimately show ?case by blast
qed

text \<open>Whenever such a split exists, the backtracking search finds a match.\<close>

lemma match_here_complete:
  "list_all2 conforms as ps \<Longrightarrow> match_here as (concat ps) \<noteq> None"
proof (induction as ps rule: list_all2_induct)
  case Nil
  then show ?case by simp
next
  case (Cons a as p ps)
  define f where "f = (\<lambda>n. case match_here as (drop n (p @ concat ps)) of
         None \<Rightarrow> None
       | Some cs \<Rightarrow> Some (if captured a then take n (p @ concat ps) # cs else cs))"
  have mem: "length p \<in> set (lens a (p @ concat ps))" using Cons.hyps(1) by (rule conforms_lens)
  have "f (length p) \<noteq> None" using Cons.IH by (auto simp: f_def split: option.splits)
  with mem have "first_match f (lens a (p @ concat ps)) \<noteq> None"
    using first_match_None [of f "lens a (p @ concat ps)"] by auto
  then show ?case by (simp add: f_def)
qed

lemma dropWhile_stop:
  "list_all p xs \<Longrightarrow> \<not> p c \<Longrightarrow> dropWhile p (xs @ c # ys) = c # ys"
  by (induction xs) auto

lemma space_not_upper: "re_space c \<Longrightarrow> \<not> upper_or_digit c"
  by (auto simp: re_space_def upper_or_digit_def)

lemma bracket_not_upper: "\<not> upper_or_digit (CHR ''['')"
  by (simp add: upper_or_digit_def)

lemma bracket_not_space: "\<not> re_space (CHR ''['')"
  by (simp add: re_space_def)

lemma after_prefix:
  assumes "list_all upper_or_digit P" "list_all re_space W"
  shows "dropWhile re_space (dropWhile upper_or_digit (P @ W @ ''['' @ C @ '']'')) = ''['' @ C @ '']''"
proof -
  have "dropWhile upper_or_digit (P @ W @ ''['' @ C @ '']'') = W @ ''['' @ C @ '']''"
  proof (cases W)
    case Nil
    then show ?thesis using dropWhile_stop [OF assms(1) bracket_not_upper] by simp
  next
    case (Cons w ws)
    then have "\<not> upper_or_digit w" using assms(2) by (simp add: space_not_upper)
    then show ?thesis using dropWhile_stop [OF assms(1)] Cons by simp
  qed
  then show ?thesis using dropWhile_stop [OF assms(2) bracket_not_space] by simp
qed

lemma matches_pattern_unique: "matches_pattern s C \<Longrightarrow> matches_pattern s C' \<Longrightarrow> C = C'"
proof -
  assume "matches_pattern s C" "matches_pattern s C'"
  then obtain P W P' W' where
    a: "s = P @ W @ ''['' @ C @ '']''" "list_all upper_or_digit P" "list_all re_space W" and
    b: "s = P' @ W' @ ''['' @ C' @ '']''" "list_all upper_or_digit P'" "list_all re_space W'"
    unfolding matches_pattern_def by blast
  have "''['' @ C @ '']'' = dropWhile re_space (dropWhile upper_or_digit s)"
    unfolding a(1) using after_prefix [OF a(2,3)] by simp
  also have "\<dots> = ''['' @ C' @ '']''"
    unfolding b(1) using after_prefix [OF b(2,3)] by simp
  finally show "C = C'" by simp
qed

lemma conforms_gpu_re:
  "list_all2 conforms gpu_re ps \<longleftrightarrow>
     (\<exists>P W C. ps = [P, W, ''['', C, '']''] \<and> P \<noteq> [] \<and> list_all upper_or_digit P \<and>
              list_all re_space W \<and> C \<noteq> [] \<and> newline \<notin> set C)"
proof -
  have one: "list_all (\<lambda>x. x = c) p \<Longrightarrow> length p = Suc 0 \<Longrightarrow> p = [c]" for p :: string and c
    by (cases p) auto
  have nl: "list_all (\<lambda>c. c \<noteq> newline) C = (newline \<notin> set C)" for C
    by (auto simp: list_all_iff)
  show ?thesis
    by (auto simp: gpu_re_def list_all2_Cons1 conforms_def nl intro: one)
qed

lemma match_gpu_re_Some:
  assumes "match_here gpu_re s = Some caps"
  shows "\<exists>C. caps = [C] \<and> matches_pattern s C"
proof -
  from match_here_sound [OF assms] obtain ps where ps: "s = concat ps"
    "list_all2 conforms gpu_re ps"
    "caps = map snd (filter (\<lambda>(a, p). captured a) (zip gpu_re ps))" by blast
  from ps(2) obtain P W C where d: "ps = [P, W, ''['', C, '']'']" "P \<noteq> []"
    "list_all upper_or_digit P" "list_all re_space W" "C \<noteq> []" "newline \<notin> set C"
    unfolding conforms_gpu_re by blast
  have "caps = [C]" using ps(3) d(1) by (simp add: gpu_re_def)
  moreover have "matches_pattern s C"
    unfolding matches_pattern_def using ps(1) d by auto
  ultimately show ?thesis by blast
qed

lemma match_gpu_re:
  assumes "matches_pattern s C"
  shows "match_here gpu_re s = Some [C]"
proof -
  from assms obtain P W where d: "s = P @ W @ ''['' @ C @ '']''" "P \<noteq> []"
    "list_all upper_or_digit P" "list_all re_space W" "C \<noteq> []" "newline \<notin> set C"
    unfolding matches_pattern_def by blast
  have "list_all2 conforms gpu_re [P, W, ''['', C, '']'']"
    unfolding conforms_gpu_re using d by blast
  then have "match_here gpu_re (concat [P, W, ''['', C, '']'']) \<noteq> None"
    by (rule match_here_complete)
  then obtain caps where "match_here gpu_re s = Some caps" using d(1) by auto
  with match_gpu_re_Some [OF this] matches_pattern_unique [OF assms] show ?thesis by auto
qed

lemma strip_runes_split:
  "\<exists>rs. list_all (\<lambda>r. r \<in> set encs) rs \<and> s = concat rs @ strip_runes encs s"
proof (induction encs s rule: strip_runes.induct)
  case (1 encs s)
  show ?case
  proof (cases "find (\<lambda>e. e \<noteq> [] \<and> take (length e) s = e) encs")
    case None
    then have "strip_runes encs s = s" by (simp add: strip_runes.simps [of encs s])
    then show ?thesis by (intro exI [of _ "[]"]) simp
  next
    case (Some e)
    then have e: "e \<in> set encs" "take (length e) s = e"
      by (auto simp: find_Some_iff in_set_conv_nth)
    from "1.IH" [OF Some] obtain rs where rs: "list_all (\<lambda>r. r \<in> set encs) rs"
      "drop (length e) s = concat rs @ strip_runes encs (drop (length e) s)" by blast
    have st: "strip_runes encs s = strip_runes encs (drop (length e) s)"
      using Some by (simp add: strip_runes.simps [of encs s])
    have "s = take (length e) s @ drop (length e) s" by simp
    also have "\<dots> = concat (e # rs) @ strip_runes encs s"
      using e(2) rs(2) st by simp
    finally have "s = concat (e # rs) @ strip_runes encs s" .
    moreover have "list_all (\<lambda>r. r \<in> set encs) (e # rs)" using e(1) rs(1) by simp
    ultimately show ?thesis by blast
  qed
qed

lemma strip_runes_done:
  "e \<in> set encs \<Longrightarrow> e \<noteq> [] \<Longrightarrow> take (length e) (strip_runes encs s) \<noteq> e"
proof (induction encs s rule: strip_runes.induct)
  case (1 encs s)
  show ?case
  proof (cases "find (\<lambda>e. e \<noteq> [] \<and> take (length e) s = e) encs")
    case None
    then have "strip_runes encs s = s" by (simp add: strip_runes.simps [of encs s])
    moreover have "\<not> (e \<noteq> [] \<and> take (length e) s = e)"
      using None "1.prems"(1) by (auto simp: find_None_iff)
    ultimately show ?thesis using "1.prems"(2) by simp
  next
    case (Some e')
    have "strip_runes encs s = strip_runes encs (drop (length e') s)"
      using Some by (simp add: strip_runes.simps [of encs s])
    then show ?thesis using "1.IH" [OF Some "1.prems"] by simp
  qed
qed

lemma space_runes_utf8: "map (map of_char) space_runes = map utf8_bytes white_space"
  by (simp add: space_runes_def white_space_def utf8_bytes_def)

lemma space_runes_nonempty: "e \<in> set space_runes \<Longrightarrow> e \<noteq> []"
  by (auto simp: space_runes_def)

lemma TrimSpace_trims:
  "\<exists>lead trail. s = lead @ TrimSpace s @ trail \<and> space_run lead \<and> space_run trail \<and>
     \<not> starts_with_space (TrimSpace s) \<and> \<not> ends_with_space (TrimSpace s)"
proof -
  define m where "m = strip_runes space_runes s"
  define r where "r = strip_runes (map rev space_runes) (rev m)"
  have t: "TrimSpace s = rev r" by (simp add: TrimSpace_def m_def r_def)
  obtain ls where ls: "list_all (\<lambda>r. r \<in> set space_runes) ls" "s = concat ls @ m"
    using strip_runes_split [of space_runes s] unfolding m_def by blast
  obtain ts where ts: "list_all (\<lambda>r. r \<in> set (map rev space_runes)) ts" "rev m = concat ts @ r"
    using strip_runes_split [of "map rev space_runes" "rev m"] unfolding r_def by blast
  have m: "m = rev r @ concat (rev (map rev ts))"
  proof -
    have "m = rev (concat ts @ r)" using ts(2) by (metis rev_rev_ident)
    then show ?thesis by (simp add: rev_concat rev_map)
  qed
  have tr: "list_all (\<lambda>r. r \<in> set space_runes) (rev (map rev ts))"
    using ts(1) by (auto simp: list_all_iff)
  have s: "s = concat ls @ TrimSpace s @ concat (rev (map rev ts))"
    using ls(2) m t by simp
  have nolead: "\<not> starts_with_space (rev r)"
  proof
    assume "starts_with_space (rev r)"
    then obtain e where e: "e \<in> set space_runes" "take (length e) (rev r) = e"
      by (auto simp: starts_with_space_def list_ex_iff)
    from e(2) have "length (take (length e) (rev r)) = length e" by simp
    then have "length e \<le> length (rev r)" by simp
    then have "take (length e) m = e" using e(2) m by simp
    then show False
      using strip_runes_done [OF e(1) space_runes_nonempty [OF e(1)], of s] by (simp add: m_def)
  qed
  have notrail: "\<not> ends_with_space (rev r)"
  proof
    assume "ends_with_space (rev r)"
    then obtain e where e: "e \<in> set space_runes" "drop (length (rev r) - length e) (rev r) = e"
      by (auto simp: ends_with_space_def list_ex_iff)
    have "rev e \<in> set (map rev space_runes)" "rev e \<noteq> []"
      using e(1) space_runes_nonempty [OF e(1)] by simp_all
    then have ne: "take (length (rev e)) r \<noteq> rev e"
      unfolding r_def by (rule strip_runes_done)
    from e(2) have "length (drop (length (rev r) - length e) (rev r)) = length e" by simp
    then have "length e \<le> length r" by simp
    then have "rev (drop (length (rev r) - length e) (rev r)) = take (length e) r"
      by (simp add: rev_drop)
    with e(2) have "take (length e) r = rev e" by simp
    with ne show False by simp
  qed
  show ?thesis
    using s ls(1) tr nolead notrail unfolding t space_run_def by blast
qed

text \<open>
  C6. For every string: when the whole of it matches \<^verbatim>\<open>^[A-Z0-9]+\s*\[(.+)\]$\<close> (one
  or more upper-case letters or digits, optional white space, then a bracketed suffix
  that ends the string), \<^verbatim>\<open>cleanGPUName\<close> returns the bracketed capture trimmed of
  surrounding white space: the capture is a run of white space, the result, and a run of
  white space, and the result neither starts nor ends with white space. Otherwise it
  returns the string unchanged. White space is what \<^verbatim>\<open>unicode.IsSpace\<close> accepts, in
  UTF-8.
\<close>

theorem cleanGPUName_pattern:
  "(\<forall>C. matches_pattern name C \<longrightarrow>
      cleanGPUName name = TrimSpace C \<and>
      (\<exists>lead trail. C = lead @ cleanGPUName name @ trail \<and> space_run lead \<and> space_run trail) \<and>
      \<not> starts_with_space (cleanGPUName name) \<and> \<not> ends_with_space (cleanGPUName name)) \<and>
   ((\<forall>C. \<not> matches_pattern name C) \<longrightarrow> cleanGPUName name = name) \<and>
   map (map of_char) space_runes = map utf8_bytes white_space"
proof (intro conjI allI impI)
  show "map (map of_char) space_runes = map utf8_bytes white_space" by (rule space_runes_utf8)
next
  fix C assume m: "matches_pattern name C"
  then have "match_here gpu_re name = Some [C]" by (rule match_gpu_re)
  then show c: "cleanGPUName name = TrimSpace C"
    by (simp add: cleanGPUName_def FindStringSubmatch_def)
  from TrimSpace_trims [of C] obtain lead trail where
    t: "C = lead @ TrimSpace C @ trail" "space_run lead" "space_run trail"
       "\<not> starts_with_space (TrimSpace C)" "\<not> ends_with_space (TrimSpace C)"
    by (elim exE conjE) (rule that)
  show "\<exists>lead trail. C = lead @ cleanGPUName name @ trail \<and> space_run lead \<and> space_run trail"
    unfolding c using t(1,2,3) by (intro exI [of _ lead] exI [of _ trail]) simp
  show "\<not> starts_with_space (cleanGPUName name)" unfolding c by (rule t(4))
  show "\<not> ends_with_space (cleanGPUName name)" unfolding c by (rule t(5))
next
  assume no: "\<forall>C. \<not> matches_pattern name C"
  have "match_here gpu_re name = None"
  proof (cases "match_here gpu_re name")
    case (Some caps)
    with match_gpu_re_Some [OF Some] no show ?thesis by blast
  qed simp
  then show "cleanGPUName name = name"
    by (simp add: cleanGPUName_def FindStringSubmatch_def)
qed

theorem cleanGPUName_examples:
  "matches_pattern ''0300 [GeForce RTX 3080]'' ''GeForce RTX 3080'' \<and>
   cleanGPUName ''0300 [GeForce RTX 3080]'' = ''GeForce RTX 3080'' \<and>
   (\<forall>C. \<not> matches_pattern ''Intel HD Graphics'' C) \<and>
   cleanGPUName ''Intel HD Graphics'' = ''Intel HD Graphics'' \<and>
   matches_pattern ''AB12[Foo]'' ''Foo'' \<and> cleanGPUName ''AB12[Foo]'' = ''Foo'' \<and>
   matches_pattern ''A [ Foo ]'' '' Foo '' \<and> cleanGPUName ''A [ Foo ]'' = ''Foo'' \<and>
   matches_pattern [CHR ''7'', CHR ''['', CHR 0x09, CHR 0xC2, CHR 0xA0, CHR ''X'', CHR '' '', CHR ''Y'',
                    CHR 0xE3, CHR 0x80, CHR 0x80, CHR '']'']
     [CHR 0x09, CHR 0xC2, CHR 0xA0, CHR ''X'', CHR '' '', CHR ''Y'', CHR 0xE3, CHR 0x80, CHR 0x80] \<and>
   cleanGPUName [CHR ''7'', CHR ''['', CHR 0x09, CHR 0xC2, CHR 0xA0, CHR ''X'', CHR '' '', CHR ''Y'',
                 CHR 0xE3, CHR 0x80, CHR 0x80, CHR '']''] = ''X Y''"
proof -
  let ?n5 = "[CHR ''7'', CHR ''['', CHR 0x09, CHR 0xC2, CHR 0xA0, CHR ''X'', CHR '' '', CHR ''Y'',
              CHR 0xE3, CHR 0x80, CHR 0x80, CHR '']'']"
  let ?c5 = "[CHR 0x09, CHR 0xC2, CHR 0xA0, CHR ''X'', CHR '' '', CHR ''Y'', CHR 0xE3, CHR 0x80,
              CHR 0x80]"
  have m1: "matches_pattern ''0300 [GeForce RTX 3080]'' ''GeForce RTX 3080''"
    unfolding matches_pattern_def
    by (intro exI [of _ "''0300''"] exI [of _ "'' ''"])
       (simp add: upper_or_digit_def re_space_def)
  have m3: "matches_pattern ''AB12[Foo]'' ''Foo''"
    unfolding matches_pattern_def
    by (intro exI [of _ "''AB12''"] exI [of _ "[]"])
       (simp add: upper_or_digit_def re_space_def)
  have m4: "matches_pattern ''A [ Foo ]'' '' Foo ''"
    unfolding matches_pattern_def
    by (intro exI [of _ "''A''"] exI [of _ "'' ''"])
       (simp add: upper_or_digit_def re_space_def)
  have m5: "matches_pattern ?n5 ?c5"
    unfolding matches_pattern_def
    by (intro exI [of _ "''7''"] exI [of _ "[]"])
       (simp add: upper_or_digit_def re_space_def)
  have "match_here gpu_re ''Intel HD Graphics'' = None"
    by (simp add: gpu_re_def upper_or_digit_def re_space_def)
  then have m2: "\<forall>C. \<not> matches_pattern ''Intel HD Graphics'' C"
    using match_gpu_re by fastforce
  have t1: "TrimSpace ''GeForce RTX 3080'' = ''GeForce RTX 3080''"
    by (simp add: TrimSpace_def strip_runes.simps space_runes_def)
  have t3: "TrimSpace ''Foo'' = ''Foo''"
    by (simp add: TrimSpace_def strip_runes.simps space_runes_def)
  have t4: "TrimSpace '' Foo '' = ''Foo''"
    by (simp add: TrimSpace_def strip_runes.simps space_runes_def)
  have t5: "TrimSpace ?c5 = ''X Y''"
    by (simp add: TrimSpace_def strip_runes.simps space_runes_def)
  have "cleanGPUName ''0300 [GeForce RTX 3080]'' = ''GeForce RTX 3080''"
    using cleanGPUName_pattern [of "''0300 [GeForce RTX 3080]''"] m1 t1 by simp
  moreover have "cleanGPUName ''Intel HD Graphics'' = ''Intel HD Graphics''"
    using cleanGPUName_pattern [of "''Intel HD Graphics''"] m2 by blast
  moreover have "cleanGPUName ''AB12[Foo]'' = ''Foo''"
    using cleanGPUName_pattern [of "''AB12[Foo]''"] m3 t3 by simp
  moreover have "cleanGPUName ''A [ Foo ]'' = ''Foo''"
    using cleanGPUName_pattern [of "''A [ Foo ]''"] m4 t4 by simp
  moreover have "cleanGPUName ?n5 = ''X Y''"
    using cleanGPUName_pattern [of ?n5] m5 t5 by simp
  ultimately show ?thesis using m1 m2 m3 m4 m5 by blast
qed

subsection \<open>The package counter\<close>

lemma Split_not_Nil: "Split s sep \<noteq> []"
  by (induction s) (auto split: list.splits)

lemma length_Split: "length (Split s sep) = Suc (count_list s sep)"
  by (induction s) (auto split: list.splits simp: Split_not_Nil)

lemma getPackageCount_run:
  assumes "host_Info_again w = (Some info, None)" and "GOOS w = ''linux''"
    and "select_by_platform (Platform info) (LookPath w) = (probes, Inr cmd)"
  shows "getPackageCount w =
     (probes @ [Exec cmd],
      case Output w cmd of
        (out, Some err) \<Rightarrow> Inr (0, Some err)
      | (out, None) \<Rightarrow> Inr (int (length (Split out newline)) - 1, None))"
  using assms by (simp add: getPackageCount_def split: prod.splits option.splits)

text \<open>
  C3. For every text that the selected package-listing command writes to its standard
  output, \<^verbatim>\<open>getPackageCount\<close> returns the number of segments that splitting the text
  at the line feeds gives, minus 1, with no error. The count looks at no segment's
  content: it is the number of line feeds of the text.
\<close>

theorem getPackageCount_count:
  assumes "host_Info_again w = (Some info, None)" and "GOOS w = ''linux''"
    and "select_by_platform (Platform info) (LookPath w) = (probes, Inr cmd)"
    and "Output w cmd = (out, None)"
  shows "snd (getPackageCount w) = Inr (int (length (Split out newline)) - 1, None) \<and>
         int (length (Split out newline)) - 1 = int (count_list out newline)"
  using getPackageCount_run [OF assms(1-3)] assms(4) by (simp add: length_Split)

lemma arch_world_select:
  "select_by_platform (Platform (box_info\<lparr>Platform := ''arch''\<rparr>)) (LookPath (arch_world out)) =
     ([], Inr (Command ''pacman'' [''-Q'']))"
  by (simp add: select_by_platform_def)

theorem getPackageCount_count_examples:
  "snd (getPackageCount (arch_world [CHR ''a'', newline, CHR ''b'', newline, CHR ''c'', newline])) =
     Inr (3, None) \<and>
   snd (getPackageCount (arch_world [])) = Inr (0, None)"
proof -
  have w: "host_Info_again (arch_world out) = (Some (box_info\<lparr>Platform := ''arch''\<rparr>), None)"
    "GOOS (arch_world out) = ''linux''"
    "Output (arch_world out) (Command ''pacman'' [''-Q'']) = (out, None)" for out
    by (simp_all add: arch_world_def)
  show ?thesis
    using getPackageCount_count [OF w(1) w(2) arch_world_select w(3),
        of "[CHR ''a'', newline, CHR ''b'', newline, CHR ''c'', newline]"]
      getPackageCount_count [OF w(1) w(2) arch_world_select w(3), of "[]"]
    by simp
qed

lemma select_by_platform_spec:
  "select_by_platform platform look =
     (case select_spec platform (\<lambda>tool. snd (look tool) = None) of
        (tools, r) \<Rightarrow> (map Probe tools, r))"
  by (simp add: select_by_platform_def select_spec_def command_table_def probe_order_def)

text \<open>
  C4. On Linux, with the platform identity of its own query, \<^verbatim>\<open>getPackageCount\<close>
  takes the command from the fixed table (\<^verbatim>\<open>debian\<close> and \<^verbatim>\<open>ubuntu\<close>:
  \<^verbatim>\<open>dpkg --get-selections\<close>; \<^verbatim>\<open>arch\<close>: \<^verbatim>\<open>pacman -Q\<close>; \<^verbatim>\<open>fedora\<close>, \<^verbatim>\<open>centos\<close> and
  \<^verbatim>\<open>rhel\<close>: \<^verbatim>\<open>rpm -qa\<close>) and probes nothing; for every other identity it probes
  the search path for \<^verbatim>\<open>dpkg\<close>, \<^verbatim>\<open>pacman\<close> and \<^verbatim>\<open>rpm\<close> in that order up to the first
  one found, runs that tool's command, and with none found runs nothing and returns
  the error \<^verbatim>\<open>unsupported Linux distribution\<close> with the count 0.
\<close>

theorem getPackageCount_command:
  assumes "host_Info_again w = (Some info, None)" and "GOOS w = ''linux''"
  shows "(case select_spec (Platform info) (\<lambda>tool. snd (LookPath w tool) = None) of
            (tools, Inl e) \<Rightarrow>
              getPackageCount w =
                (map Probe tools, Inr (0, Some (Errorf ''unsupported Linux distribution'')))
          | (tools, Inr cmd) \<Rightarrow> fst (getPackageCount w) = map Probe tools @ [Exec cmd])"
proof (cases "select_spec (Platform info) (\<lambda>tool. snd (LookPath w tool) = None)")
  case (Pair tools r)
  then have sel: "select_by_platform (Platform info) (LookPath w) = (map Probe tools, r)"
    by (simp add: select_by_platform_spec)
  show ?thesis
  proof (cases r)
    case (Inl e)
    have "e = Errorf ''unsupported Linux distribution''"
      using Pair Inl
      by (auto simp: select_spec_def command_table_def probe_order_def
          split: option.splits if_splits)
    then show ?thesis
      using Pair Inl sel assms by (simp add: getPackageCount_def)
  next
    case (Inr cmd)
    then show ?thesis
      using Pair sel getPackageCount_run [OF assms, of "map Probe tools" cmd] by simp
  qed
qed

theorem getPackageCount_command_examples:
  "fst (getPackageCount (arch_world [])) = [Exec (Command ''pacman'' [''-Q''])] \<and>
   select_spec ''void'' (\<lambda>tool. tool = ''rpm'') =
     ([''dpkg'', ''pacman'', ''rpm''], Inr (Command ''rpm'' [''-qa'']))"
proof -
  have w: "host_Info_again (arch_world []) = (Some (box_info\<lparr>Platform := ''arch''\<rparr>), None)"
    "GOOS (arch_world []) = ''linux''"
    by (simp_all add: arch_world_def)
  have s: "select_spec ''arch'' found = ([], Inr (Command ''pacman'' [''-Q'']))" for found
    by (simp add: select_spec_def command_table_def)
  have "fst (getPackageCount (arch_world [])) = [Exec (Command ''pacman'' [''-Q''])]"
    using getPackageCount_command [OF w] by (simp add: s)
  moreover have "select_spec ''void'' (\<lambda>tool. tool = ''rpm'') =
     ([''dpkg'', ''pacman'', ''rpm''], Inr (Command ''rpm'' [''-qa'']))"
    by (simp add: select_spec_def command_table_def probe_order_def)
  ultimately show ?thesis by simp
qed

subsection \<open>\<^verbatim>\<open>filepath.Base\<close>\<close>

lemma takeWhile_stop:
  "list_all p xs \<Longrightarrow> ys = [] \<or> \<not> p (hd ys) \<Longrightarrow> takeWhile p (xs @ ys) = xs"
  by (induction xs) (auto simp: takeWhile_eq_Nil_iff)

lemma Base_final_segment:
  assumes "final_segment path seg"
  shows "Base path = seg"
proof -
  from assms obtain pre slashes where d: "path = pre @ seg @ slashes" "seg \<noteq> []"
    "CHR ''/'' \<notin> set seg" "list_all (\<lambda>c. c = CHR ''/'') slashes"
    "pre = [] \<or> last pre = CHR ''/''"
    unfolding final_segment_def by blast
  obtain c cs where r: "rev seg = c # cs" using d(2) by (cases "rev seg") simp_all
  then have c: "c \<noteq> CHR ''/''" using d(3) by (metis list.set_intros(1) set_rev)
  have sl: "list_all (\<lambda>c. c = CHR ''/'') (rev slashes)" using d(4) by (simp add: list_all_iff)
  have "rev path = rev slashes @ c # (cs @ rev pre)" using d(1) r by simp
  then have "dropWhile (\<lambda>c. c = CHR ''/'') (rev path) = c # (cs @ rev pre)"
    using dropWhile_stop [OF sl, of c "cs @ rev pre"] c by simp
  then have stripped: "dropWhile (\<lambda>c. c = CHR ''/'') (rev path) = rev seg @ rev pre"
    using r by simp
  have all: "list_all (\<lambda>c. c \<noteq> CHR ''/'') (rev seg)" using d(3) by (auto simp: list_all_iff)
  have "rev pre = [] \<or> \<not> hd (rev pre) \<noteq> CHR ''/''"
    using d(5) by (auto simp: hd_rev)
  then have "takeWhile (\<lambda>c. c \<noteq> CHR ''/'') (rev seg @ rev pre) = rev seg"
    by (rule takeWhile_stop [OF all])
  moreover have "path \<noteq> []" using d(1,2) by simp
  ultimately show ?thesis using d(2) by (simp add: Base_def stripped)
qed

lemma Base_slashes:
  assumes "path \<noteq> []" "list_all (\<lambda>c. c = CHR ''/'') path"
  shows "Base path = ''/''"
proof -
  have h: "dropWhile (\<lambda>c. c = CHR ''/'') (rev path) = []"
    using assms(2) by (auto simp: list_all_iff)
  show ?thesis using assms(1) by (simp add: Base_def h)
qed

lemma Base_has_segment:
  assumes "path \<noteq> []" "\<not> list_all (\<lambda>c. c = CHR ''/'') path"
  shows "final_segment path (Base path)"
proof -
  define slashes where "slashes = rev (takeWhile (\<lambda>c. c = CHR ''/'') (rev path))"
  define stripped where "stripped = rev (dropWhile (\<lambda>c. c = CHR ''/'') (rev path))"
  define seg where "seg = rev (takeWhile (\<lambda>c. c \<noteq> CHR ''/'') (rev stripped))"
  define pre where "pre = rev (dropWhile (\<lambda>c. c \<noteq> CHR ''/'') (rev stripped))"
  have p: "path = stripped @ slashes"
    unfolding stripped_def slashes_def by (simp flip: rev_append add: rev_swap)
  have s: "stripped = pre @ seg"
    unfolding pre_def seg_def by (simp flip: rev_append add: rev_swap)
  have ne: "dropWhile (\<lambda>c. c = CHR ''/'') (rev path) \<noteq> []"
    using assms(2) by (auto simp: list_all_iff dropWhile_eq_Nil_conv)
  then have "\<not> hd (dropWhile (\<lambda>c. c = CHR ''/'') (rev path)) = CHR ''/''"
    by (rule hd_dropWhile)
  then have tk: "takeWhile (\<lambda>c. c \<noteq> CHR ''/'') (rev stripped) \<noteq> []"
    unfolding stripped_def using ne
    by (cases "dropWhile (\<lambda>c. c = CHR ''/'') (rev path)") simp_all
  then have seg: "seg \<noteq> []" unfolding seg_def by simp
  have noslash: "CHR ''/'' \<notin> set seg"
    unfolding seg_def by (auto dest: set_takeWhileD)
  have sl: "list_all (\<lambda>c. c = CHR ''/'') slashes"
    unfolding slashes_def by (auto simp: list_all_iff dest: set_takeWhileD)
  have pr: "pre = [] \<or> last pre = CHR ''/''"
  proof (cases "dropWhile (\<lambda>c. c \<noteq> CHR ''/'') (rev stripped) = []")
    case True
    then show ?thesis unfolding pre_def by simp
  next
    case False
    then have "\<not> hd (dropWhile (\<lambda>c. c \<noteq> CHR ''/'') (rev stripped)) \<noteq> CHR ''/''"
      by (rule hd_dropWhile)
    then show ?thesis unfolding pre_def using False by (simp add: last_rev)
  qed
  have "Base path = seg"
    using assms(1) tk by (simp add: Base_def Let_def stripped_def [symmetric] seg_def)
  moreover have "final_segment path seg"
    unfolding final_segment_def
    using p s seg noslash sl pr by (intro exI [of _ pre] exI [of _ slashes]) simp
  ultimately show ?thesis by simp
qed

subsection \<open>The presenter\<close>

lemma fold_max_Max:
  fixes g :: "'a \<Rightarrow> int"
  shows "fold (\<lambda>item m. max m (g item)) info m0 = Max (insert m0 (g ` set info))"
proof (induction info arbitrary: m0)
  case Nil
  then show ?case by simp
next
  case (Cons item info)
  have fin: "finite (g ` set info)" by simp
  have "fold (\<lambda>item m. max m (g item)) (item # info) m0 =
        fold (\<lambda>item m. max m (g item)) info (max m0 (g item))" by simp
  also have "\<dots> = Max (insert (max m0 (g item)) (g ` set info))" by (rule Cons.IH)
  also have "\<dots> = Max (insert m0 (insert (g item) (g ` set info)))"
    using fin by (cases "g ` set info = {}") (simp_all add: max.assoc)
  also have "insert m0 (insert (g item) (g ` set info)) = insert m0 (g ` set (item # info))"
    by simp
  finally show ?case .
qed

lemma maxLabelLength_fold:
  fixes info :: "row list"
  shows "fold (\<lambda>item m. if int (length (fst item)) > m then int (length (fst item)) else m) info m0 =
     Max (insert m0 ((\<lambda>item. int (length (fst item))) ` set info))"
proof -
  have "(\<lambda>item m. if int (length (fst item)) > m then int (length (fst item)) else m) =
        (\<lambda>(item :: row) m. max m (int (length (fst item))))"
    by (auto simp: fun_eq_iff max_def)
  then show ?thesis by (simp only: fold_max_Max)
qed

lemma maxLabelLength_Max:
  "maxLabelLength info = Max (insert 0 ((\<lambda>item. int (length (fst item))) ` set info))"
  by (simp add: maxLabelLength_def maxLabelLength_fold)

lemma label_le_max: "item \<in> set info \<Longrightarrow> int (length (fst item)) \<le> maxLabelLength info"
  unfolding maxLabelLength_Max by (intro Max_ge) auto

lemma main_rendered:
  assumes "main w = (out, None)"
  shows "\<exists>gpu packageCount err info.
           info_table w (fst (Hostname w)) (getCPUInfo w) gpu packageCount err = Inr info \<and>
           out = header (Getenv w ''USER'') (fst (Hostname w)) @ print_rows info @
                 color_blocks w @ [newline]"
  using assms
  by (auto simp: main_def Let_def split: sum.splits prod.splits if_splits)

lemma info_table_rows:
  assumes "info_table w hostname cpu gpu packageCount err = Inr info"
  shows "map fst info =
           [''Hostname'', ''OS'', ''Kernel'', ''Uptime'', ''Shell'', ''CPU'', ''GPU'', ''Memory'',
            ''Packages''] \<and>
         info ! 4 = (''Shell'', Base (Getenv w ''SHELL'')) \<and> info ! 0 = (''Hostname'', hostname) \<and>
         info ! 6 = (''GPU'', gpu)"
  using assms
  by (auto simp: info_table_def split: prod.splits option.splits sum.splits)

subsection \<open>The example host\<close>

lemmas clean_eval =
  cleanGPUName_def FindStringSubmatch_def gpu_re_def upper_or_digit_def re_space_def
  TrimSpace_def strip_runes.simps space_runes_def

lemma box_cpu: "getCPUInfo (box\<lparr>host_Info := h, ghw_GPU := g, Output := q\<rparr>) = (''TestCPU'', 4, 5 / 2)"
proof -
  have "representable (of_nat 5 / 2 ^ 1)" by (rule representable_dyadic) simp_all
  then have "float64 (5 / 2) = 5 / 2" using float64_exact [of "5 / 2"] by simp
  then show ?thesis by (simp add: getCPUInfo_def box_def)
qed

lemma box_uptime: "formatUptime 3661 = ''0d 1h 1m''"
proof -
  have "unat (3661 :: 64 word) \<le> 9223372036" by simp
  note p = uptime_parts [OF this]
  show ?thesis
    unfolding formatUptime_def Let_def p by (simp add: fmt_d_def decimal_digit digit_def)
qed

lemma box_memory:
  "formatBytes 1073741824 = Inr ''1.0 GiB''" "formatBytes 2147483648 = Inr ''2.0 GiB''"
proof -
  have c: "formatBytes_claimed 1073741824 = ''1.0 GiB''" "formatBytes_claimed 2147483648 = ''2.0 GiB''"
    by (simp_all add: eval_simps divisions.simps humanize_def formatBytes_claimed_def)
  have u: "unat (1073741824 :: 64 word) = 1073741824" "unat (2147483648 :: 64 word) = 2147483648"
    by simp_all
  have s: "unat (1073741824 :: 64 word) \<le> 2 ^ 53" "unat (2147483648 :: 64 word) \<le> 2 ^ 53"
    by simp_all
  show "formatBytes 1073741824 = Inr ''1.0 GiB''"
    using formatBytes_exact [OF s(1)] by (simp only: u c)
  show "formatBytes 2147483648 = Inr ''2.0 GiB''"
    using formatBytes_exact [OF s(2)] by (simp only: u c)
qed

lemma box_packages:
  "getPackageCount (box\<lparr>host_Info := h, ghw_GPU := g\<rparr>) =
     ([Exec (Command ''dpkg'' [''--get-selections''])], Inr (2, None))"
  by (simp add: getPackageCount_def box_def box_info_def select_by_platform_def)

lemma box_gpu: "getGPUInfo (ghw_GPU box) = Inr (''0xAB [TestGPU]'', None)"
  by (simp add: getGPUInfo_def box_def clean_eval)

lemma box_texts: "fmt_d 4 = ''4''" "fmt_d 2 = ''2''" "fmt_f 2 (5 / 2) = ''2.50''"
  "Base ''/bin/bash'' = ''bash''"
  by (simp_all add: eval_simps Base_def)

lemma box_table:
  "info_table (box\<lparr>ghw_GPU := g, Output := q\<rparr>) ''box'' (''TestCPU'', 4, 5 / 2) gpu packageCount err =
     Inr (butlast (box_rows[6 := (''GPU'', gpu)]) @
          [(''Packages'', if 0 \<le> packageCount then fmt_d packageCount
                          else ''Unable to determine ('' @ fmt_s_error err @ '')'')])"
  by (simp add: info_table_def box_def box_info_def box_uptime box_memory box_texts box_rows_def)

lemma main_box: "main box = (header ''alice'' ''box'' @ print_rows box_rows @ [newline], None)"
proof -
  have "box = box\<lparr>host_Info := host_Info box, ghw_GPU := ghw_GPU box\<rparr>" by simp
  then have p: "getPackageCount box = ([Exec (Command ''dpkg'' [''--get-selections''])], Inr (2, None))"
    using box_packages [where h = "host_Info box" and g = "ghw_GPU box"] by simp
  have "box = box\<lparr>host_Info := host_Info box, ghw_GPU := ghw_GPU box, Output := Output box\<rparr>" by simp
  then have c: "getCPUInfo box = (''TestCPU'', 4, 5 / 2)"
    using box_cpu [where h = "host_Info box" and g = "ghw_GPU box" and q = "Output box"] by simp
  have "box = box\<lparr>ghw_GPU := ghw_GPU box, Output := Output box\<rparr>" by simp
  then have t: "info_table box ''box'' (''TestCPU'', 4, 5 / 2) ''0xAB [TestGPU]'' 2 None = Inr box_rows"
    using box_table [where g = "ghw_GPU box" and q = "Output box" and gpu = "''0xAB [TestGPU]''"
        and packageCount = 2 and err = None]
    by (simp add: box_rows_def box_texts)
  have e: "Hostname box = (''box'', None)" "Getenv box ''USER'' = ''alice''" "color_blocks box = []"
    by (simp_all add: box_def)
  show ?thesis by (simp add: main_def p c box_gpu t e)
qed

subsection \<open>The rows of \<^verbatim>\<open>main\<close>\<close>

lemma pad_to_max:
  assumes "item \<in> set info"
  shows "fmt_pad (maxLabelLength info - int (length (fst item))) '''' =
           replicate (nat (maxLabelLength info) - length (fst item)) (CHR '' '')"
    and "length (fst item @ replicate (nat (maxLabelLength info) - length (fst item)) (CHR '' '')) =
           nat (maxLabelLength info)"
proof -
  have le: "int (length (fst item)) \<le> maxLabelLength info" using assms by (rule label_le_max)
  then have "nat \<bar>maxLabelLength info - int (length (fst item))\<bar> =
             nat (maxLabelLength info) - length (fst item)" by linarith
  then show "fmt_pad (maxLabelLength info - int (length (fst item))) '''' =
           replicate (nat (maxLabelLength info) - length (fst item)) (CHR '' '')"
    by (simp add: fmt_pad_def RuneCountInString.simps)
  show "length (fst item @ replicate (nat (maxLabelLength info) - length (fst item)) (CHR '' '')) =
           nat (maxLabelLength info)"
    using le by simp
qed

lemma main_table:
  assumes "main w = (out, None)"
  shows "\<exists>info. map fst info =
             [''Hostname'', ''OS'', ''Kernel'', ''Uptime'', ''Shell'', ''CPU'', ''GPU'', ''Memory'',
              ''Packages''] \<and>
           info ! 4 = (''Shell'', Base (Getenv w ''SHELL'')) \<and>
           out = header (Getenv w ''USER'') (fst (Hostname w)) @ print_rows info @
                 color_blocks w @ [newline]"
proof -
  from main_rendered [OF assms] obtain gpu packageCount err info where
    t: "info_table w (fst (Hostname w)) (getCPUInfo w) gpu packageCount err = Inr info" and
    o: "out = header (Getenv w ''USER'') (fst (Hostname w)) @ print_rows info @
              color_blocks w @ [newline]" by blast
  from info_table_rows [OF t] o show ?thesis by (intro exI [of _ info]) simp
qed

lemma shown_plain: "CHR 0x1B \<notin> set xs \<Longrightarrow> shown (xs @ ys) = xs @ shown ys"
  by (induction xs) auto

lemma ascii_runes: "list_all (\<lambda>c. (of_char c :: nat) < 128) s \<Longrightarrow> RuneCountInString s = length s"
proof (induction s)
  case Nil
  then show ?case by (simp add: RuneCountInString.simps)
next
  case (Cons c s)
  then show ?case by (subst RuneCountInString.simps) simp
qed

lemma maxLength_Max: "maxLength info = Max (insert 0 ((\<lambda>line. int (length line)) ` set info))"
proof -
  have "(\<lambda>line m. if int (length line) > m then int (length line) else m) =
        (\<lambda>(line :: string) m. max m (int (length line)))"
    by (auto simp: fun_eq_iff max_def)
  then show ?thesis unfolding maxLength_def by (simp only: fold_max_Max)
qed

lemma maxLength_nonneg: "0 \<le> maxLength info"
  unfolding maxLength_Max by (intro Max_ge) auto

lemma print_rows_text: "print_rows info = concat (map (row_text (nat (maxLabelLength info))) info)"
  unfolding print_rows_def
  by (intro arg_cong [where f = concat] map_cong refl)
     (simp add: pad_to_max(1) row_text_def colourise_def category_def text_colour_def reset_def
        esc_def)

lemma print_box_text:
  "print_box info =
     replicate (nat (maxLength info) + 4) (CHR ''-'') @ [newline] @
     concat (map (boxed_text (nat (maxLength info))) info) @
     replicate (nat (maxLength info) + 4) (CHR ''-'') @ [newline]"
proof -
  have n: "nat (maxLength info + 4) = nat (maxLength info) + 4"
    using maxLength_nonneg [of info] by linarith
  have a: "\<bar>maxLength info\<bar> = maxLength info" using maxLength_nonneg [of info] by simp
  have "map (\<lambda>line. ''| '' @ fmt_pad (maxLength info) line @ '' |'' @ [newline]) info =
        map (boxed_text (nat (maxLength info))) info"
    by (simp add: fmt_pad_def boxed_text_def a)
  then show ?thesis unfolding print_box_def n by (simp only:)
qed

lemma header_text: "header username hostname = heading_text username hostname"
  by (simp add: header_def heading_text_def colourise_def hostcol_def reset_def esc_def)

lemma header_go_fetch_text: "header_go_fetch username hostname = title_text username hostname"
proof -
  have "nat (int (length username) + int (length hostname) + 1) =
        length username + length hostname + 1" by linarith
  then show ?thesis by (simp add: header_go_fetch_def title_text_def esc_def)
qed

lemma max_label_main:
  assumes "map fst rows =
             [''Hostname'', ''OS'', ''Kernel'', ''Uptime'', ''Shell'', ''CPU'', ''GPU'', ''Memory'',
              ''Packages'']"
  shows "maxLabelLength rows = 8"
proof -
  have "(\<lambda>item. int (length (fst item))) ` set rows = (\<lambda>l. int (length l)) ` set (map fst rows)"
    by (simp add: image_image)
  then show ?thesis unfolding maxLabelLength_Max assms by simp
qed

lemma main_text:
  assumes "main w = (out, None)"
  shows "\<exists>rows. map fst rows =
             [''Hostname'', ''OS'', ''Kernel'', ''Uptime'', ''Shell'', ''CPU'', ''GPU'', ''Memory'',
              ''Packages''] \<and>
           rows ! 4 = (''Shell'', Base (Getenv w ''SHELL'')) \<and>
           out = heading_text (Getenv w ''USER'') (fst (Hostname w)) @
                 concat (map (row_text 8) rows) @ color_blocks w @ [newline]"
proof -
  from main_table [OF assms] obtain rows where
    r: "map fst rows =
             [''Hostname'', ''OS'', ''Kernel'', ''Uptime'', ''Shell'', ''CPU'', ''GPU'', ''Memory'',
              ''Packages'']"
       "rows ! 4 = (''Shell'', Base (Getenv w ''SHELL''))"
       "out = header (Getenv w ''USER'') (fst (Hostname w)) @ print_rows rows @
                 color_blocks w @ [newline]" by (elim exE conjE) (rule that)
  have "print_rows rows = concat (map (row_text 8) rows)"
    unfolding print_rows_text max_label_main [OF r(1)] by simp
  with r show ?thesis unfolding header_text by (intro exI [of _ rows]) simp
qed

lemma go_fetch_lines_vals:
  assumes "go_fetch_lines w hostname cpuModel logicalCores cpuSpeed packageCount err = Inr info"
  shows "\<exists>vals. length vals = 8 \<and> vals ! 4 = Getenv w ''SHELL'' \<and>
           info = map2 (\<lambda>label val. label @ '': '' @ val)
                    [''Hostname'', ''OS'', ''Kernel'', ''Uptime'', ''Shell'', ''CPU'', ''Memory'',
                     ''Installed Packages''] vals"
proof -
  from assms obtain osInfo memInfo usedText totalText where
    f: "fst (host_Info w) = Some osInfo" "fst (VirtualMemory w) = Some memInfo"
       "formatBytes (Used memInfo) = Inr usedText" "formatBytes (Total memInfo) = Inr totalText"
    unfolding go_fetch_lines_def by (simp split: option.splits sum.splits)
  have i: "info = [''Hostname: '' @ hostname,
                ''OS: '' @ Platform osInfo @ '' '' @ PlatformVersion osInfo,
                ''Kernel: '' @ KernelVersion osInfo,
                ''Uptime: '' @ formatUptime (Uptime osInfo),
                ''Shell: '' @ Getenv w ''SHELL'',
                ''CPU: '' @ cpuModel @ '' ('' @ fmt_d logicalCores @
                   '' cores @ '' @ fmt_f 2 cpuSpeed @ '' GHz)'',
                ''Memory: '' @ usedText @ '' / '' @ totalText,
                if 0 \<le> packageCount
                then ''Installed Packages: '' @ fmt_d packageCount
                else ''Installed Packages: Unable to determine ('' @ fmt_s_error err @ '')'']"
    using assms f by (simp add: go_fetch_lines_def)
  show ?thesis
    unfolding i
    by (intro exI [of _ "[hostname, Platform osInfo @ '' '' @ PlatformVersion osInfo,
           KernelVersion osInfo, formatUptime (Uptime osInfo), Getenv w ''SHELL'',
           cpuModel @ '' ('' @ fmt_d logicalCores @ '' cores @ '' @ fmt_f 2 cpuSpeed @ '' GHz)'',
           usedText @ '' / '' @ totalText,
           if 0 \<le> packageCount then fmt_d packageCount
           else ''Unable to determine ('' @ fmt_s_error err @ '')'']"]) simp
qed

lemma main_go_fetch_text:
  assumes "main_go_fetch w = (out, None)"
  shows "\<exists>vals. length vals = 8 \<and> vals ! 4 = Getenv w ''SHELL'' \<and>
           out = title_text (Getenv w ''USER'') (fst (Hostname w)) @
                 print_box (map2 (\<lambda>label val. label @ '': '' @ val)
                    [''Hostname'', ''OS'', ''Kernel'', ''Uptime'', ''Shell'', ''CPU'', ''Memory'',
                     ''Installed Packages''] vals)"
proof -
  from assms obtain cpuModel logicalCores cpuSpeed packageCount err info where
    t: "go_fetch_lines w (fst (Hostname w)) cpuModel logicalCores cpuSpeed packageCount err = Inr info" and
    o: "out = header_go_fetch (Getenv w ''USER'') (fst (Hostname w)) @ print_box info"
    by (auto simp: main_go_fetch_def Let_def split: sum.splits prod.splits if_splits)
  from go_fetch_lines_vals [OF t] obtain vals where
    v: "length vals = 8" "vals ! 4 = Getenv w ''SHELL''"
       "info = map2 (\<lambda>label val. label @ '': '' @ val)
                    [''Hostname'', ''OS'', ''Kernel'', ''Uptime'', ''Shell'', ''CPU'', ''Memory'',
                     ''Installed Packages''] vals" by (elim exE conjE) (rule that)
  show ?thesis
    unfolding o header_go_fetch_text v(3) using v(1,2) by (intro exI [of _ vals]) simp
qed

lemma shown_code:
  "shown (CHR 0x1B # ''[95m'' @ r) = shown r" "shown (CHR 0x1B # ''[34m'' @ r) = shown r"
  "shown (CHR 0x1B # ''[0m'' @ r) = shown r"
  by simp_all

lemma shown_row:
  assumes "CHR 0x1B \<notin> set (fst item)" "CHR 0x1B \<notin> set (snd item)"
  shows "shown (row_text width item) =
           fst item @ replicate (width - length (fst item)) (CHR '' '') @ '' '' @ snd item @ [newline]"
proof -
  let ?blanks = "replicate (width - length (fst item)) (CHR '' '') @ '' ''"
  let ?tail3 = "snd item @ CHR 0x1B # ''[0m'' @ [newline]"
  let ?tail2 = "?blanks @ CHR 0x1B # ''[34m'' @ ?tail3"
  let ?tail1 = "fst item @ CHR 0x1B # ''[0m'' @ ?tail2"
  have b: "CHR 0x1B \<notin> set ?blanks" by auto
  have "row_text width item = CHR 0x1B # ''[95m'' @ ?tail1" by (simp add: row_text_def)
  then have "shown (row_text width item) = shown ?tail1" by (simp only: shown_code)
  also have "\<dots> = fst item @ shown (CHR 0x1B # ''[0m'' @ ?tail2)"
    by (rule shown_plain [OF assms(1)])
  also have "shown (CHR 0x1B # ''[0m'' @ ?tail2) = shown ?tail2" by (rule shown_code)
  also have "shown ?tail2 = ?blanks @ shown (CHR 0x1B # ''[34m'' @ ?tail3)"
    by (rule shown_plain [OF b])
  also have "shown (CHR 0x1B # ''[34m'' @ ?tail3) = shown ?tail3" by (rule shown_code)
  also have "shown ?tail3 = snd item @ shown (CHR 0x1B # ''[0m'' @ [newline])"
    by (rule shown_plain [OF assms(2)])
  also have "shown (CHR 0x1B # ''[0m'' @ [newline]) = [newline]" by simp
  finally show ?thesis by simp
qed

lemma float64_half: "float64 (5 / 2) = 5 / 2"
proof -
  have "representable (of_nat 5 / 2 ^ 1)" by (rule representable_dyadic) simp_all
  then show ?thesis using float64_exact [of "5 / 2"] by simp
qed

lemma go_fetch_lines_box: "go_fetch_lines box ''box'' ''TestCPU'' 4 (5 / 2) 2 None = Inr box_lines"
  by (simp add: go_fetch_lines_def box_def box_info_def box_uptime box_memory box_texts
      box_lines_def)

lemma main_go_fetch_box:
  "main_go_fetch box = (header_go_fetch ''alice'' ''box'' @ print_box box_lines, None)"
proof -
  have "box = box\<lparr>host_Info := host_Info box, ghw_GPU := ghw_GPU box\<rparr>" by simp
  then have p: "getPackageCount box = ([Exec (Command ''dpkg'' [''--get-selections''])], Inr (2, None))"
    using box_packages [where h = "host_Info box" and g = "ghw_GPU box"] by simp
  have e: "Hostname box = (''box'', None)" "Getenv box ''USER'' = ''alice''"
    "cpu_Info box = ([\<lparr>ModelName = ''TestCPU'', Mhz = 2500\<rparr>], None)" "NumCPU box = 4"
    by (simp_all add: box_def)
  show ?thesis by (simp add: main_go_fetch_def p e float64_half go_fetch_lines_box)
qed

lemma maxLength_box_lines: "maxLength box_lines = 33"
  by (simp add: maxLength_def box_lines_def)

lemma replicate_dashes:
  "replicate 37 (CHR ''-'') = ''-------------------------------------''"
  by (simp add: eval_nat_numeral)

lemma boxed_box_lines:
  "map (boxed_text 33) box_lines =
     map (\<lambda>l. l @ [newline])
       [''| Hostname: box                     |'',
        ''| OS: ubuntu 22.04                  |'',
        ''| Kernel: 5.15.0                    |'',
        ''| Uptime: 0d 1h 1m                  |'',
        ''| Shell: /bin/bash                  |'',
        ''| CPU: TestCPU (4 cores @ 2.50 GHz) |'',
        ''| Memory: 1.0 GiB / 2.0 GiB         |'',
        ''| Installed Packages: 2             |'']"
  by (simp add: box_lines_def boxed_text_def ascii_runes eval_nat_numeral)

lemma main_box_env:
  "main (box\<lparr>Getenv := e\<rparr>) =
     (header (e ''USER'') ''box'' @
      print_rows (box_rows[4 := (''Shell'', Base (e ''SHELL''))]) @ [newline], None)"
proof -
  have p: "getPackageCount (box\<lparr>Getenv := e\<rparr>) =
             ([Exec (Command ''dpkg'' [''--get-selections''])], Inr (2, None))"
    by (simp add: getPackageCount_def box_def box_info_def select_by_platform_def)
  have c: "getCPUInfo (box\<lparr>Getenv := e\<rparr>) = (''TestCPU'', 4, 5 / 2)"
    by (simp add: getCPUInfo_def box_def float64_half)
  have t: "info_table (box\<lparr>Getenv := e\<rparr>) ''box'' (''TestCPU'', 4, 5 / 2) ''0xAB [TestGPU]'' 2 None =
             Inr (box_rows[4 := (''Shell'', Base (e ''SHELL''))])"
    by (simp add: info_table_def box_def box_info_def box_uptime box_memory box_texts box_rows_def)
  have h: "Hostname (box\<lparr>Getenv := e\<rparr>) = (''box'', None)" "color_blocks (box\<lparr>Getenv := e\<rparr>) = []"
    by (simp_all add: box_def)
  show ?thesis by (simp add: main_def p c box_gpu t h)
qed

text \<open>
  C9, as amended. The presenter of \<^verbatim>\<open>part_000\<close> takes its alignment width as the
  maximum length in bytes over the labels of the rows alone (0 for no rows), never over a
  line with its value, and prints every row as its label in the category colour, blanks
  that fill the label up to exactly that one width, one blank, and the value in the text
  colour; what a terminal shows of a row without escape characters is the label padded
  to the width, a blank and the value. The rows that \<^verbatim>\<open>main\<close> prints this way are its
  table of the nine labels, which are ASCII and at most 8 long. The presenter of
  \<^verbatim>\<open>go-fetch.go\<close> differs: its rows are whole lines \<^verbatim>\<open>label: value\<close>, its width is the
  maximum length in bytes over those whole lines, and it prints every line, not the
  label, padded to that width between \<^verbatim>\<open>| \<close> and \<^verbatim>\<open> |\<close>, under and over a rule of
  dashes.
\<close>

theorem print_rows_aligned:
  "print_rows info = concat (map (row_text (nat (maxLabelLength info))) info)
   \<and> maxLabelLength info = Max (insert 0 ((\<lambda>item. int (length (fst item))) ` set info))
   \<and> (\<forall>item\<in>set info.
         length (fst item @ replicate (nat (maxLabelLength info) - length (fst item)) (CHR '' '')) =
           nat (maxLabelLength info))
   \<and> (\<forall>item\<in>set info. CHR 0x1B \<notin> set (fst item) \<and> CHR 0x1B \<notin> set (snd item) \<longrightarrow>
         shown (row_text (nat (maxLabelLength info)) item) =
           (fst item @ replicate (nat (maxLabelLength info) - length (fst item)) (CHR '' '')) @
           '' '' @ snd item @ [newline])
   \<and> (main w = (out, None) \<longrightarrow>
        (\<exists>rows. map fst rows =
             [''Hostname'', ''OS'', ''Kernel'', ''Uptime'', ''Shell'', ''CPU'', ''GPU'', ''Memory'',
              ''Packages''] \<and>
           out = heading_text (Getenv w ''USER'') (fst (Hostname w)) @
                 concat (map (row_text 8) rows) @ color_blocks w @ [newline]))
   \<and> print_box texts =
         replicate (nat (maxLength texts) + 4) (CHR ''-'') @ [newline] @
         concat (map (boxed_text (nat (maxLength texts))) texts) @
         replicate (nat (maxLength texts) + 4) (CHR ''-'') @ [newline]
   \<and> maxLength texts = Max (insert 0 ((\<lambda>line. int (length line)) ` set texts))
   \<and> (main_go_fetch w = (out', None) \<longrightarrow>
        (\<exists>vals. length vals = 8 \<and>
           out' = title_text (Getenv w ''USER'') (fst (Hostname w)) @
                  print_box (map2 (\<lambda>label val. label @ '': '' @ val)
                    [''Hostname'', ''OS'', ''Kernel'', ''Uptime'', ''Shell'', ''CPU'', ''Memory'',
                 ''Installed Packages''] vals)))"
proof (intro conjI ballI impI)
  show "print_rows info = concat (map (row_text (nat (maxLabelLength info))) info)"
    by (rule print_rows_text)
  show "maxLabelLength info = Max (insert 0 ((\<lambda>item. int (length (fst item))) ` set info))"
    by (rule maxLabelLength_Max)
  show "print_box texts =
         replicate (nat (maxLength texts) + 4) (CHR ''-'') @ [newline] @
         concat (map (boxed_text (nat (maxLength texts))) texts) @
         replicate (nat (maxLength texts) + 4) (CHR ''-'') @ [newline]"
    by (rule print_box_text)
  show "maxLength texts = Max (insert 0 ((\<lambda>line. int (length line)) ` set texts))"
    by (rule maxLength_Max)
next
  fix item assume "item \<in> set info"
  then show "length (fst item @ replicate (nat (maxLabelLength info) - length (fst item)) (CHR '' '')) =
           nat (maxLabelLength info)" by (rule pad_to_max(2))
next
  fix item
  assume "CHR 0x1B \<notin> set (fst item) \<and> CHR 0x1B \<notin> set (snd item)"
  then show "shown (row_text (nat (maxLabelLength info)) item) =
           (fst item @ replicate (nat (maxLabelLength info) - length (fst item)) (CHR '' '')) @
           '' '' @ snd item @ [newline]"
    by (simp add: shown_row)
next
  assume "main w = (out, None)"
  from main_text [OF this] obtain rows where
    r: "map fst rows =
             [''Hostname'', ''OS'', ''Kernel'', ''Uptime'', ''Shell'', ''CPU'', ''GPU'', ''Memory'',
              ''Packages'']"
       "out = heading_text (Getenv w ''USER'') (fst (Hostname w)) @
                 concat (map (row_text 8) rows) @ color_blocks w @ [newline]"
    by (elim exE conjE) (rule that)
  show "\<exists>rows. map fst rows =
             [''Hostname'', ''OS'', ''Kernel'', ''Uptime'', ''Shell'', ''CPU'', ''GPU'', ''Memory'',
              ''Packages''] \<and>
           out = heading_text (Getenv w ''USER'') (fst (Hostname w)) @
                 concat (map (row_text 8) rows) @ color_blocks w @ [newline]"
    by (intro exI [of _ rows] conjI) (rule r)+
next
  assume "main_go_fetch w = (out', None)"
  from main_go_fetch_text [OF this] obtain vals where
    v: "length vals = 8"
       "out' = title_text (Getenv w ''USER'') (fst (Hostname w)) @
                  print_box (map2 (\<lambda>label val. label @ '': '' @ val)
                    [''Hostname'', ''OS'', ''Kernel'', ''Uptime'', ''Shell'', ''CPU'', ''Memory'',
                 ''Installed Packages''] vals)"
    by (elim exE conjE) (rule that)
  show "\<exists>vals. length vals = 8 \<and>
           out' = title_text (Getenv w ''USER'') (fst (Hostname w)) @
                  print_box (map2 (\<lambda>label val. label @ '': '' @ val)
                    [''Hostname'', ''OS'', ''Kernel'', ''Uptime'', ''Shell'', ''CPU'', ''Memory'',
                 ''Installed Packages''] vals)"
    by (intro exI [of _ vals] conjI) (rule v)+
qed

theorem print_rows_aligned_example:
  "main box = (heading_text ''alice'' ''box'' @ concat (map (row_text 8) box_rows) @ [newline], None) \<and>
   maxLabelLength box_rows = 8 \<and>
   (''OS'', ''ubuntu 22.04'') \<in> set box_rows \<and>
   row_text 8 (''OS'', ''ubuntu 22.04'') =
     CHR 0x1B # ''[95mOS'' @ CHR 0x1B # ''[0m       '' @ CHR 0x1B # ''[34mubuntu 22.04'' @
     CHR 0x1B # ''[0m'' @ [newline] \<and>
   shown (row_text 8 (''OS'', ''ubuntu 22.04'')) = ''OS       ubuntu 22.04'' @ [newline] \<and>
   length (''OS'' @ replicate (8 - length ''OS'') (CHR '' '')) = 8 \<and>
   main_go_fetch box = (title_text ''alice'' ''box'' @ print_box box_lines, None) \<and>
   maxLength box_lines = 33 \<and>
   print_box box_lines =
     replicate 37 (CHR ''-'') @ [newline] @ concat (map (boxed_text 33) box_lines) @
     replicate 37 (CHR ''-'') @ [newline] \<and>
   boxed_text 33 ''OS: ubuntu 22.04'' = ''| OS: ubuntu 22.04                  |'' @ [newline]"
proof -
  note th = print_rows_aligned [of box_rows box "fst (main box)" box_lines "fst (main_go_fetch box)"]
  have m: "maxLabelLength box_rows = 8"
    using th [THEN conjunct2, THEN conjunct1] by (simp add: box_rows_def)
  have p: "print_rows box_rows = concat (map (row_text 8) box_rows)"
    using th [THEN conjunct1] unfolding m by simp
  have i: "(''OS'', ''ubuntu 22.04'') \<in> set box_rows" by (simp add: box_rows_def)
  have l: "length (fst (''OS'', ''ubuntu 22.04'') @
          replicate (nat (maxLabelLength box_rows) - length (fst (''OS'', ''ubuntu 22.04''))) (CHR '' '')) =
        nat (maxLabelLength box_rows)"
    using th [THEN conjunct2, THEN conjunct2, THEN conjunct1] i by (rule bspec)
  have "CHR 0x1B \<notin> set (fst (''OS'', ''ubuntu 22.04'')) \<and>
        CHR 0x1B \<notin> set (snd (''OS'', ''ubuntu 22.04'')) \<longrightarrow>
        shown (row_text (nat (maxLabelLength box_rows)) (''OS'', ''ubuntu 22.04'')) =
           (fst (''OS'', ''ubuntu 22.04'') @
            replicate (nat (maxLabelLength box_rows) - length (fst (''OS'', ''ubuntu 22.04'')))
              (CHR '' '')) @
           '' '' @ snd (''OS'', ''ubuntu 22.04'') @ [newline]"
    using th [THEN conjunct2, THEN conjunct2, THEN conjunct2, THEN conjunct1] i by (rule bspec)
  then have s: "shown (row_text 8 (''OS'', ''ubuntu 22.04'')) = ''OS       ubuntu 22.04'' @ [newline]"
    unfolding m by (simp add: eval_nat_numeral)
  have r: "row_text 8 (''OS'', ''ubuntu 22.04'') =
     CHR 0x1B # ''[95mOS'' @ CHR 0x1B # ''[0m       '' @ CHR 0x1B # ''[34mubuntu 22.04'' @
     CHR 0x1B # ''[0m'' @ [newline]"
    by (simp add: row_text_def eval_nat_numeral)
  have w: "maxLength box_lines = 33"
    using th [THEN conjunct2, THEN conjunct2, THEN conjunct2, THEN conjunct2, THEN conjunct2,
        THEN conjunct2, THEN conjunct1]
    by (simp add: box_lines_def)
  have b: "print_box box_lines =
     replicate 37 (CHR ''-'') @ [newline] @ concat (map (boxed_text 33) box_lines) @
     replicate 37 (CHR ''-'') @ [newline]"
    using th [THEN conjunct2, THEN conjunct2, THEN conjunct2, THEN conjunct2, THEN conjunct2,
        THEN conjunct1] unfolding w by simp
  have x: "boxed_text 33 ''OS: ubuntu 22.04'' = ''| OS: ubuntu 22.04                  |'' @ [newline]"
    by (simp add: boxed_text_def ascii_runes eval_nat_numeral)
  have g: "main_go_fetch box = (title_text ''alice'' ''box'' @ print_box box_lines, None)"
    using main_go_fetch_box by (simp only: header_go_fetch_text)
  have a: "main box = (heading_text ''alice'' ''box'' @ concat (map (row_text 8) box_rows) @ [newline], None)"
    using main_box by (simp only: header_text p)
  from l have l': "length (''OS'' @ replicate (8 - length ''OS'') (CHR '' '')) = 8"
    unfolding m by simp
  show ?thesis
    by (intro conjI) (rule a m i r s l' g w b x)+
qed

theorem go_fetch_pads_whole_lines:
  "main_go_fetch box =
     (CHR 0x1B # ''[1malice@box'' @ CHR 0x1B # ''[0m'' @ [newline] @
      concat (map (\<lambda>l. l @ [newline])
         [''---------'',
          ''-------------------------------------'',
          ''| Hostname: box                     |'',
          ''| OS: ubuntu 22.04                  |'',
          ''| Kernel: 5.15.0                    |'',
          ''| Uptime: 0d 1h 1m                  |'',
          ''| Shell: /bin/bash                  |'',
          ''| CPU: TestCPU (4 cores @ 2.50 GHz) |'',
          ''| Memory: 1.0 GiB / 2.0 GiB         |'',
          ''| Installed Packages: 2             |'',
          ''-------------------------------------'']), None) \<and>
   maxLength box_lines = 33 \<and> length ''CPU: TestCPU (4 cores @ 2.50 GHz)'' = 33 \<and>
   length ''Installed Packages'' = 18"
proof -
  have "print_box box_lines =
     replicate 37 (CHR ''-'') @ [newline] @ concat (map (boxed_text 33) box_lines) @
     replicate 37 (CHR ''-'') @ [newline]"
    unfolding print_box_text maxLength_box_lines by simp
  then have "main_go_fetch box =
     (title_text ''alice'' ''box'' @ replicate 37 (CHR ''-'') @ [newline] @
      concat (map (boxed_text 33) box_lines) @ replicate 37 (CHR ''-'') @ [newline], None)"
    using main_go_fetch_box by (simp only: header_go_fetch_text)
  then show ?thesis
    unfolding boxed_box_lines replicate_dashes maxLength_box_lines
    by (simp add: title_text_def eval_nat_numeral)
qed

text \<open>
  C10, as amended. In \<^verbatim>\<open>part_000\<close>, whenever \<^verbatim>\<open>main\<close> renders its rows, the value of
  the \<^verbatim>\<open>Shell\<close> row is \<^verbatim>\<open>filepath.Base\<close> of the value of \<^verbatim>\<open>SHELL\<close>, printed as the fifth
  of nine rows; that is the final path segment of every value that has one, which is
  every value with a byte other than a slash, \<^verbatim>\<open>.\<close> for the empty value and \<^verbatim>\<open>/\<close> for a
  value of slashes only. In \<^verbatim>\<open>go-fetch.go\<close>, whenever \<^verbatim>\<open>main\<close> renders its lines, the
  fifth of eight is \<^verbatim>\<open>Shell: \<close> with the value of \<^verbatim>\<open>SHELL\<close> as it is, not reduced.
\<close>

theorem shell_row_basename:
  "(main w = (out, None) \<longrightarrow>
      (\<exists>rows. length rows = 9 \<and> rows ! 4 = (''Shell'', Base (Getenv w ''SHELL'')) \<and>
         out = heading_text (Getenv w ''USER'') (fst (Hostname w)) @
               concat (map (row_text 8) rows) @ color_blocks w @ [newline]))
   \<and> (final_segment path seg \<longrightarrow> Base path = seg)
   \<and> Base [] = ''.''
   \<and> (path \<noteq> [] \<and> list_all (\<lambda>c. c = CHR ''/'') path \<longrightarrow> Base path = ''/'')
   \<and> (path \<noteq> [] \<and> \<not> list_all (\<lambda>c. c = CHR ''/'') path \<longrightarrow> final_segment path (Base path))
   \<and> (main_go_fetch w = (out', None) \<longrightarrow>
        (\<exists>texts. length texts = 8 \<and> texts ! 4 = ''Shell: '' @ Getenv w ''SHELL'' \<and>
           out' = title_text (Getenv w ''USER'') (fst (Hostname w)) @
                  replicate (nat (maxLength texts) + 4) (CHR ''-'') @ [newline] @
                  concat (map (boxed_text (nat (maxLength texts))) texts) @
                  replicate (nat (maxLength texts) + 4) (CHR ''-'') @ [newline]))"
proof (intro conjI impI)
  assume "main w = (out, None)"
  from main_text [OF this] obtain rows where
    r: "map fst rows =
             [''Hostname'', ''OS'', ''Kernel'', ''Uptime'', ''Shell'', ''CPU'', ''GPU'', ''Memory'',
              ''Packages'']"
       "rows ! 4 = (''Shell'', Base (Getenv w ''SHELL''))"
       "out = heading_text (Getenv w ''USER'') (fst (Hostname w)) @
                 concat (map (row_text 8) rows) @ color_blocks w @ [newline]"
    by (elim exE conjE) (rule that)
  from r(1) have "length (map fst rows) = 9" by simp
  then have "length rows = 9" by simp
  with r(2,3) show "\<exists>rows. length rows = 9 \<and> rows ! 4 = (''Shell'', Base (Getenv w ''SHELL'')) \<and>
         out = heading_text (Getenv w ''USER'') (fst (Hostname w)) @
               concat (map (row_text 8) rows) @ color_blocks w @ [newline]"
    by (intro exI [of _ rows]) simp
next
  assume "final_segment path seg"
  then show "Base path = seg" by (rule Base_final_segment)
next
  show "Base [] = ''.''" by (simp add: Base_def)
next
  assume "path \<noteq> [] \<and> list_all (\<lambda>c. c = CHR ''/'') path"
  then show "Base path = ''/''" using Base_slashes by blast
next
  assume "path \<noteq> [] \<and> \<not> list_all (\<lambda>c. c = CHR ''/'') path"
  then show "final_segment path (Base path)" using Base_has_segment by blast
next
  assume "main_go_fetch w = (out', None)"
  from main_go_fetch_text [OF this] obtain vals where
    v: "length vals = 8" "vals ! 4 = Getenv w ''SHELL''"
       "out' = title_text (Getenv w ''USER'') (fst (Hostname w)) @
                  print_box (map2 (\<lambda>label val. label @ '': '' @ val)
                    [''Hostname'', ''OS'', ''Kernel'', ''Uptime'', ''Shell'', ''CPU'', ''Memory'',
                 ''Installed Packages''] vals)"
    by (elim exE conjE) (rule that)
  define texts where "texts = map2 (\<lambda>label val. label @ '': '' @ val)
                    [''Hostname'', ''OS'', ''Kernel'', ''Uptime'', ''Shell'', ''CPU'', ''Memory'',
                 ''Installed Packages''] vals"
  have "length texts = 8" using v(1) by (simp add: texts_def)
  moreover have "texts ! 4 = ''Shell: '' @ Getenv w ''SHELL''"
    using v(1,2) by (simp add: texts_def)
  moreover have "out' = title_text (Getenv w ''USER'') (fst (Hostname w)) @
                  replicate (nat (maxLength texts) + 4) (CHR ''-'') @ [newline] @
                  concat (map (boxed_text (nat (maxLength texts))) texts) @
                  replicate (nat (maxLength texts) + 4) (CHR ''-'') @ [newline]"
    unfolding v(3) texts_def [symmetric] print_box_text by (rule refl)
  ultimately show "\<exists>texts. length texts = 8 \<and> texts ! 4 = ''Shell: '' @ Getenv w ''SHELL'' \<and>
           out' = title_text (Getenv w ''USER'') (fst (Hostname w)) @
                  replicate (nat (maxLength texts) + 4) (CHR ''-'') @ [newline] @
                  concat (map (boxed_text (nat (maxLength texts))) texts) @
                  replicate (nat (maxLength texts) + 4) (CHR ''-'') @ [newline]"
    by (intro exI [of _ texts] conjI)
qed

theorem shell_row_example:
  "main box = (heading_text ''alice'' ''box'' @ concat (map (row_text 8) box_rows) @ [newline], None) \<and>
   Getenv box ''SHELL'' = ''/bin/bash'' \<and> box_rows ! 4 = (''Shell'', ''bash'') \<and>
   row_text 8 (''Shell'', ''bash'') =
     CHR 0x1B # ''[95mShell'' @ CHR 0x1B # ''[0m    '' @ CHR 0x1B # ''[34mbash'' @
     CHR 0x1B # ''[0m'' @ [newline] \<and>
   final_segment ''/bin/bash'' ''bash'' \<and> Base ''/bin/bash'' = ''bash'' \<and>
   Base ''///'' = ''/'' \<and>
   final_segment ''/usr/bin/zsh/'' ''zsh'' \<and> Base ''/usr/bin/zsh/'' = ''zsh'' \<and>
   final_segment ''fish'' (Base ''fish'') \<and>
   main_go_fetch box = (title_text ''alice'' ''box'' @ print_box box_lines, None) \<and>
   box_lines ! 4 = ''Shell: '' @ Getenv box ''SHELL''"
proof -
  have f: "final_segment ''/bin/bash'' ''bash''"
    unfolding final_segment_def
    by (intro exI [of _ "''/bin/''"] exI [of _ "[]"]) simp
  then have b: "Base ''/bin/bash'' = ''bash''"
    using shell_row_basename [of box _ "''/bin/bash''" "''bash''", THEN conjunct2, THEN conjunct1]
    by (rule rev_mp)
  have f2: "final_segment ''/usr/bin/zsh/'' ''zsh''"
    unfolding final_segment_def
    by (intro exI [of _ "''/usr/bin/''"] exI [of _ "''/''"]) simp
  then have b2: "Base ''/usr/bin/zsh/'' = ''zsh''"
    using shell_row_basename [of box _ "''/usr/bin/zsh/''" "''zsh''", THEN conjunct2, THEN conjunct1]
    by (rule rev_mp)
  have s: "Base ''///'' = ''/''"
    using shell_row_basename [of box _ "''///''" "''bash''", THEN conjunct2, THEN conjunct2,
        THEN conjunct2, THEN conjunct1]
    by simp
  have f3: "final_segment ''fish'' (Base ''fish'')"
    using shell_row_basename [of box _ "''fish''" "''bash''", THEN conjunct2, THEN conjunct2,
        THEN conjunct2, THEN conjunct2, THEN conjunct1]
    by simp
  have e: "Getenv box ''SHELL'' = ''/bin/bash''" by (simp add: box_def)
  have r4: "box_rows ! 4 = (''Shell'', ''bash'')" by (simp add: box_rows_def)
  have l4: "box_lines ! 4 = ''Shell: '' @ Getenv box ''SHELL''" by (simp add: box_lines_def e)
  have r: "row_text 8 (''Shell'', ''bash'') =
     CHR 0x1B # ''[95mShell'' @ CHR 0x1B # ''[0m    '' @ CHR 0x1B # ''[34mbash'' @
     CHR 0x1B # ''[0m'' @ [newline]"
    by (simp add: row_text_def eval_nat_numeral)
  have "print_rows box_rows = concat (map (row_text 8) box_rows)"
    unfolding print_rows_text by (simp add: max_label_main box_rows_def)
  then have a: "main box = (heading_text ''alice'' ''box'' @ concat (map (row_text 8) box_rows) @ [newline], None)"
    using main_box by (simp only: header_text)
  have g: "main_go_fetch box = (title_text ''alice'' ''box'' @ print_box box_lines, None)"
    using main_go_fetch_box by (simp only: header_go_fetch_text)
  show ?thesis
    by (intro conjI) (rule a e r4 r f b s f2 b2 f3 g l4)+
qed

theorem shell_row_not_basename:
  "Getenv box ''SHELL'' = ''/bin/bash'' \<and>
   main_go_fetch box =
     (title_text ''alice'' ''box'' @ replicate 37 (CHR ''-'') @ [newline] @
      concat (map (boxed_text 33) box_lines) @ replicate 37 (CHR ''-'') @ [newline], None) \<and>
   box_lines ! 4 = ''Shell: /bin/bash'' \<and>
   boxed_text 33 ''Shell: /bin/bash'' = ''| Shell: /bin/bash                  |'' @ [newline] \<and>
   Getenv box_no_shell ''SHELL'' = [] \<and> \<not> final_segment [] ''.'' \<and>
   main box_no_shell =
     (heading_text ''alice'' ''box'' @
      concat (map (row_text 8) (box_rows[4 := (''Shell'', ''.'')])) @ [newline], None) \<and>
   row_text 8 (''Shell'', ''.'') =
     CHR 0x1B # ''[95mShell'' @ CHR 0x1B # ''[0m    '' @ CHR 0x1B # ''[34m.'' @
     CHR 0x1B # ''[0m'' @ [newline]"
proof -
  have e: "Getenv box ''SHELL'' = ''/bin/bash''" by (simp add: box_def)
  have "print_box box_lines =
     replicate 37 (CHR ''-'') @ [newline] @ concat (map (boxed_text 33) box_lines) @
     replicate 37 (CHR ''-'') @ [newline]"
    unfolding print_box_text maxLength_box_lines by simp
  then have g: "main_go_fetch box =
     (title_text ''alice'' ''box'' @ replicate 37 (CHR ''-'') @ [newline] @
      concat (map (boxed_text 33) box_lines) @ replicate 37 (CHR ''-'') @ [newline], None)"
    using main_go_fetch_box by (simp only: header_go_fetch_text)
  have l4: "box_lines ! 4 = ''Shell: /bin/bash''" by (simp add: box_lines_def)
  have x: "boxed_text 33 ''Shell: /bin/bash'' = ''| Shell: /bin/bash                  |'' @ [newline]"
    by (simp add: boxed_text_def ascii_runes eval_nat_numeral)
  have n: "Getenv box_no_shell ''SHELL'' = []" by (simp add: box_no_shell_def)
  have nf: "\<not> final_segment [] ''.''" by (simp add: final_segment_def)
  have "print_rows (box_rows[4 := (''Shell'', ''.'')]) =
        concat (map (row_text 8) (box_rows[4 := (''Shell'', ''.'')]))"
    unfolding print_rows_text by (simp add: max_label_main box_rows_def)
  moreover have "main box_no_shell =
     (header ''alice'' ''box'' @ print_rows (box_rows[4 := (''Shell'', ''.'')]) @ [newline], None)"
    unfolding box_no_shell_def main_box_env by (simp add: Base_def)
  ultimately have a: "main box_no_shell =
     (heading_text ''alice'' ''box'' @
      concat (map (row_text 8) (box_rows[4 := (''Shell'', ''.'')])) @ [newline], None)"
    by (simp only: header_text)
  have r: "row_text 8 (''Shell'', ''.'') =
     CHR 0x1B # ''[95mShell'' @ CHR 0x1B # ''[0m    '' @ CHR 0x1B # ''[34m.'' @
     CHR 0x1B # ''[0m'' @ [newline]"
    by (simp add: row_text_def eval_nat_numeral)
  show ?thesis
    by (intro conjI) (rule e g l4 x n nf a r)+
qed

subsection \<open>Runs that end in a panic, and the lost error\<close>

lemma box_packages_fail:
  "getPackageCount box_listing_fails =
     ([Exec (Command ''dpkg'' [''--get-selections''])], Inr (0, Some (Errorf ''exit status 1'')))"
  by (simp add: box_listing_fails_def getPackageCount_def box_def box_info_def
      select_by_platform_def)

text \<open>
  C8 fails on the code. When \<^verbatim>\<open>host.Info()\<close> fails in \<^verbatim>\<open>main\<close> and returns the nil
  record with its error, \<^verbatim>\<open>main\<close> drops the error, prints the header line and reads
  \<^verbatim>\<open>osInfo.Platform\<close> through the nil pointer: the run ends in a panic and no row is
  printed.
\<close>

theorem main_without_host_info:
  "main box_no_host_info = (header ''alice'' ''box'', Some NilDereference)"
proof -
  let ?h = "(None, Some (Errorf ''host info unavailable''))"
  have w: "box_no_host_info = box\<lparr>host_Info := ?h, ghw_GPU := ghw_GPU box\<rparr>"
    "box_no_host_info = box\<lparr>host_Info := ?h, ghw_GPU := ghw_GPU box, Output := Output box\<rparr>"
    by (simp_all add: box_no_host_info_def)
  have p: "getPackageCount box_no_host_info =
      ([Exec (Command ''dpkg'' [''--get-selections''])], Inr (2, None))"
    unfolding w(1) by (rule box_packages)
  have c: "getCPUInfo box_no_host_info = (''TestCPU'', 4, 5 / 2)"
    unfolding w(2) by (rule box_cpu)
  have g: "getGPUInfo (ghw_GPU box_no_host_info) = Inr (''0xAB [TestGPU]'', None)"
    using box_gpu by (simp add: box_no_host_info_def)
  have t: "info_table box_no_host_info hostname cpu gpu packageCount err = Inl NilDereference"
    for hostname cpu gpu packageCount err
    by (simp add: info_table_def box_no_host_info_def split: prod.splits)
  have e: "Hostname box_no_host_info = (''box'', None)" "Getenv box_no_host_info ''USER'' = ''alice''"
    by (simp_all add: box_no_host_info_def box_def)
  show ?thesis by (simp add: main_def p c g t e)
qed

text \<open>
  C5 fails on the code. For a first graphics card without device information,
  \<^verbatim>\<open>getGPUInfo\<close> skips the branch that its nil check guards and then reads
  \<^verbatim>\<open>card.DeviceInfo.Vendor.Name\<close> through the nil pointer: it panics, and \<^verbatim>\<open>main\<close> with
  it before it has printed anything.
\<close>

theorem getGPUInfo_bare_card:
  "getGPUInfo (Some \<lparr>GraphicsCards = [Some \<lparr>DeviceInfo = None\<rparr>]\<rparr>, None) = Inl NilDereference \<and>
   main box_bare_card = ([], Some NilDereference)"
proof -
  let ?g = "(Some \<lparr>GraphicsCards = [Some \<lparr>DeviceInfo = None\<rparr>]\<rparr>, None)"
  have g: "getGPUInfo ?g = Inl NilDereference" by (simp add: getGPUInfo_def)
  have w: "box_bare_card = box\<lparr>host_Info := host_Info box, ghw_GPU := ?g\<rparr>"
    by (simp add: box_bare_card_def)
  have p: "getPackageCount box_bare_card =
      ([Exec (Command ''dpkg'' [''--get-selections''])], Inr (2, None))"
    unfolding w by (rule box_packages)
  have "ghw_GPU box_bare_card = ?g" by (simp add: box_bare_card_def)
  then have "main box_bare_card = ([], Some NilDereference)"
    by (simp add: main_def p g)
  with g show ?thesis by simp
qed

text \<open>
  C7 fails on the code. When the package listing fails, \<^verbatim>\<open>getPackageCount\<close> returns
  the count 0 with the error and \<^verbatim>\<open>main\<close> sets the count to -1; but the next statement,
  \<^verbatim>\<open>gpu, err := getGPUInfo()\<close>, overwrites the variable \<^verbatim>\<open>err\<close>. With a GPU query
  that succeeds the \<^verbatim>\<open>Packages\<close> row shows the nil error as \<^verbatim>\<open>%!s(<nil>)\<close>, not the
  error of the package counter.
\<close>

theorem main_loses_package_error:
  "snd (getPackageCount box_listing_fails) = Inr (0, Some (Errorf ''exit status 1'')) \<and>
   main box_listing_fails =
     (header ''alice'' ''box'' @
      print_rows (butlast box_rows @ [(''Packages'', ''Unable to determine (%!s(<nil>))'')]) @
      [newline], None)"
proof -
  let ?q = "\<lambda>cmd :: Cmd. ([] :: string, Some (Errorf ''exit status 1''))"
  have w: "box_listing_fails = box\<lparr>ghw_GPU := ghw_GPU box, Output := ?q\<rparr>"
    "box_listing_fails = box\<lparr>host_Info := host_Info box, ghw_GPU := ghw_GPU box, Output := ?q\<rparr>"
    by (simp_all add: box_listing_fails_def)
  have c: "getCPUInfo box_listing_fails = (''TestCPU'', 4, 5 / 2)"
    unfolding w(2) by (rule box_cpu)
  have g: "getGPUInfo (ghw_GPU box_listing_fails) = Inr (''0xAB [TestGPU]'', None)"
    using box_gpu by (simp add: box_listing_fails_def)
  have t: "info_table box_listing_fails ''box'' (''TestCPU'', 4, 5 / 2) ''0xAB [TestGPU]'' (- 1) None =
      Inr (butlast box_rows @ [(''Packages'', ''Unable to determine (%!s(<nil>))'')])"
    using box_table [where g = "ghw_GPU box" and q = ?q and gpu = "''0xAB [TestGPU]''"
        and packageCount = "- 1" and err = None]
    unfolding w(1) [symmetric] by (simp add: fmt_s_error_def box_rows_def)
  have e: "Hostname box_listing_fails = (''box'', None)"
    "Getenv box_listing_fails ''USER'' = ''alice''" "color_blocks box_listing_fails = []"
    by (simp_all add: box_listing_fails_def box_def)
  have "main box_listing_fails =
     (header ''alice'' ''box'' @
      print_rows (butlast box_rows @ [(''Packages'', ''Unable to determine (%!s(<nil>))'')]) @
      [newline], None)"
    by (simp add: main_def box_packages_fail c g t e)
  then show ?thesis by (simp add: box_packages_fail)
qed

end
